theory Spec2Isabelle
  imports Main "HOL-Library.Word" "HOL-Library.Multiset"
begin

section \<open>Data model of the execution engine\<close>

text \<open>
  Session objects are shared (\<^verbatim>\<open>std::shared_ptr<SessionItem>\<close>) and mutated through
  every pointer to them, so they live in an explicit store indexed by an address
  (\<open>sid\<close>). A strong pointer is an address; a weak pointer is an address whose
  \<^verbatim>\<open>lock()\<close> fails once the object is in the set \<open>expired\<close>.
\<close>

type_synonym sid = nat
type_synonym ticket = "64 word"

datatype DeviceType = CPU | GPU

datatype DeviceSpec = DeviceSpec DeviceType nat

definition GPU0 :: DeviceSpec where
  "GPU0 = DeviceSpec GPU 0"

definition CPU0 :: DeviceSpec where
  "CPU0 = DeviceSpec CPU 0"

datatype ResourceType = MEMORY | COMPUTE

type_synonym ResourceTag = "ResourceType \<times> DeviceSpec"

type_synonym Resources = "ResourceTag \<rightharpoonup> nat"

record ResourceContext =
  m_spec :: DeviceSpec
  m_ticket :: ticket
  session :: sid
  hasStaging :: bool

text \<open>
  An operation is opaque to the engine: it has an identity, the \<^verbatim>\<open>isAsync()\<close> flag
  and the resource context it owns.
\<close>

record OperationTask =
  opId :: nat
  isAsync :: bool
  resourceContext :: ResourceContext

record OperationItem =
  sess :: sid
  op :: OperationTask

text \<open>
  The paging callbacks are implemented by the session owner. They act on the world
  outside the engine, of which the engine only holds the resource monitor \<open>'w\<close>.
\<close>

record 'w PagingCallbacks =
  volunteer :: "ticket \<Rightarrow> ResourceContext \<Rightarrow> 'w \<Rightarrow> nat \<times> 'w"
  forceEvictedCb :: "'w \<Rightarrow> 'w"

record 'w SessionItem =
  sessHandle :: string
  queue :: "OperationItem list"
  bgQueue :: "OperationItem list"
  tickets :: "ticket set"
  pagingCb :: "'w PagingCallbacks option"
  protectOOM :: bool
  forceEvicted :: bool
  lastScheduled :: nat
  totalExecutedOp :: nat
  resourceUsage :: "ResourceTag \<Rightarrow> nat"

text \<open>
  Modelled from the spec: the worker pool (\<^verbatim>\<open>m_pool\<close>, class not in the sources) is
  a fixed-capacity pool that accepts a closure or reports "full". A closure is
  identified by the operation item it captures.
\<close>

record ThreadPool =
  poolCapacity :: nat
  poolQueued :: "OperationItem list"

definition tryRun :: "OperationItem \<Rightarrow> ThreadPool \<Rightarrow> OperationItem option \<times> ThreadPool" where
  "tryRun c p =
     (if length (poolQueued p) < poolCapacity p
      then (None, p\<lparr>poolQueued := poolQueued p @ [c]\<rparr>)
      else (Some c, p))"

text \<open>
  The resource monitor (class \<^verbatim>\<open>ResourceMonitor\<close>) and the logging level are not in
  the sources: the functions of the monitor that the engine calls, and
  \<^verbatim>\<open>VLOG_IS_ON\<close>, are parameters of the model. So is \<^verbatim>\<open>std::sort\<close>, as \<open>doPaging\<close>
  calls it on its candidates: C++ fixes its result only up to the order of elements
  that compare equal, and that order differs between implementations.
\<close>

record 'w Externals =
  preAllocate :: "Resources \<Rightarrow> 'w \<Rightarrow> ticket option \<times> 'w"
  freeStaging :: "ticket \<Rightarrow> 'w \<Rightarrow> 'w"
  hasUsage :: "ticket \<Rightarrow> 'w \<Rightarrow> bool"
  sortVictim :: "ticket set \<Rightarrow> 'w \<Rightarrow> (nat \<times> ticket) list"
  vlog_is_on :: "nat \<Rightarrow> bool"
  std_sort :: "(nat \<times> sid) list \<Rightarrow> (nat \<times> sid) list"

text \<open>
  The engine. The counters are atomic integers whose declaration is in the header;
  they are integers here, and sizes (\<^verbatim>\<open>size_t\<close>) are natural numbers: no sum below comes
  near the machine bound. \<open>m_note_has_work\<close> is the single-slot notification: \<open>notify\<close>
  sets it, \<open>wait\<close> consumes it.
\<close>

record 'w EngineState =
  sessions :: "sid \<Rightarrow> 'w SessionItem"
  expired :: "sid set"
  m_sessions :: "sid list"
  m_newSessions :: "sid list"
  m_deletedSessions :: "sid set"
  m_runningTasks :: int
  m_noPagingRunningTasks :: int
  m_resMonitor :: 'w
  m_pool :: ThreadPool
  m_note_has_work :: bool
  wait_last :: int
  wait_sleep :: int

text \<open>
  What the engine does to the outside during a call, in the order it does it; every
  function below that has such effects returns their list.
  \<^item> \<open>EvCancel p n\<close>: \<^verbatim>\<open>opItem->op->cancel()\<close> on operation \<open>n\<close>, in the loop over the
    \<open>bgQueue\<close> of session \<open>p\<close>;
  \<^item> \<open>EvVolunteer p t\<close>: \<^verbatim>\<open>pSess->pagingCb.volunteer(t, rctx)\<close> of session \<open>p\<close>;
  \<^item> \<open>EvForceEvicted p\<close>: \<^verbatim>\<open>pagingCb.forceEvicted()\<close> of session \<open>p\<close>;
  \<^item> \<open>EvPagingLog released h\<close>: the line the scope guard of \<open>doPaging\<close> logs on
    every way out, with \<open>released\<close> and \<open>forceEvicitedSess\<close>;
  \<^item> \<open>EvSingleSessionOOM h\<close>: the error logged for an out-of-memory single session;
  \<^item> \<open>EvSleep d\<close>: \<^verbatim>\<open>std::this_thread::sleep_for\<close> of \<open>d\<close> milliseconds;
  \<^item> \<open>EvWaitWork\<close>: \<^verbatim>\<open>m_note_has_work.wait()\<close>.
\<close>

datatype event =
    EvCancel sid nat
  | EvVolunteer sid ticket
  | EvForceEvicted sid
  | EvPagingLog nat string
  | EvSingleSessionOOM string
  | EvSleep int
  | EvWaitWork

definition lock :: "'w EngineState \<Rightarrow> sid \<Rightarrow> sid option" where
  "lock s p = (if p \<in> expired s then None else Some p)"

definition upd_session ::
  "sid \<Rightarrow> ('w SessionItem \<Rightarrow> 'w SessionItem) \<Rightarrow> 'w EngineState \<Rightarrow> 'w EngineState" where
  "upd_session p f s = s\<lparr>sessions := (sessions s)(p := f (sessions s p))\<rparr>"

section \<open>ResourceContext\<close>

text \<open>
  Modelled from the spec: \<^verbatim>\<open>SessionItem::removeMemoryAllocationTicket\<close> (class not in
  the sources) takes the ticket out of the set of tickets the session owns.
\<close>

definition removeMemoryAllocationTicket :: "ticket \<Rightarrow> 'w SessionItem \<Rightarrow> 'w SessionItem" where
  "removeMemoryAllocationTicket t si = si\<lparr>tickets := tickets si - {t}\<rparr>"

text \<open>
  Modelled from the spec: \<^verbatim>\<open>ResourceContext::isGood\<close> (defined in the header, not in
  the sources) is false exactly when staging failed.
\<close>

definition isGood :: "ResourceContext \<Rightarrow> bool" where
  "isGood rc = hasStaging rc"

text \<open>
  The constructor \<^verbatim>\<open>ResourceContext(PSessionItem, ResourceMonitor&)\<close>. The default
  device of \<^verbatim>\<open>m_spec()\<close> is overwritten by \<open>initializeStaging\<close> before it is read.
\<close>

definition newResourceContext :: "sid \<Rightarrow> ResourceContext" where
  "newResourceContext item =
     \<lparr>m_spec = DeviceSpec CPU 0, m_ticket = 0, session = item, hasStaging = False\<rparr>"

definition initializeStaging ::
  "'w Externals \<Rightarrow> DeviceSpec \<Rightarrow> Resources \<Rightarrow> ResourceContext \<Rightarrow> 'w EngineState
     \<Rightarrow> ResourceContext \<times> 'w EngineState" where
  "initializeStaging E spec res rc s =
     (let rc1 = rc\<lparr>m_spec := spec\<rparr> in
      case preAllocate E res (m_resMonitor s) of
        (Some t, w) \<Rightarrow> (rc1\<lparr>m_ticket := t, hasStaging := True\<rparr>, s\<lparr>m_resMonitor := w\<rparr>)
      | (None, w) \<Rightarrow> (rc1, s\<lparr>m_resMonitor := w\<rparr>))"

definition removeTicketFromSession :: "ResourceContext \<Rightarrow> 'w EngineState \<Rightarrow> 'w EngineState" where
  "removeTicketFromSession rc s =
     upd_session (session rc) (removeMemoryAllocationTicket (m_ticket rc)) s"

definition releaseStaging ::
  "'w Externals \<Rightarrow> ResourceContext \<Rightarrow> 'w EngineState \<Rightarrow> ResourceContext \<times> 'w EngineState" where
  "releaseStaging E rc s =
     (if \<not> hasStaging rc then (rc, s)
      else
        let s1 = s\<lparr>m_resMonitor := freeStaging E (m_ticket rc) (m_resMonitor s)\<rparr>;
            rc1 = rc\<lparr>hasStaging := False\<rparr>
        in if \<not> hasUsage E (m_ticket rc1) (m_resMonitor s1)
           then (rc1, removeTicketFromSession rc1 s1)
           else (rc1, s1))"

text \<open>The destructor \<^verbatim>\<open>~ResourceContext\<close> only calls \<open>releaseStaging\<close>.\<close>

definition destroyResourceContext ::
  "'w Externals \<Rightarrow> ResourceContext \<Rightarrow> 'w EngineState \<Rightarrow> ResourceContext \<times> 'w EngineState" where
  "destroyResourceContext E rc s = releaseStaging E rc s"

definition makeResourceContext ::
  "'w Externals \<Rightarrow> sid \<Rightarrow> DeviceSpec \<Rightarrow> Resources \<Rightarrow> 'w EngineState
     \<Rightarrow> ResourceContext \<times> 'w EngineState" where
  "makeResourceContext E item spec res s =
     initializeStaging E spec res (newResourceContext item) s"

section \<open>Task life cycle\<close>

definition pushToSessionQueue :: "OperationItem \<Rightarrow> 'w EngineState \<Rightarrow> 'w EngineState" where
  "pushToSessionQueue opItem s =
     (case lock s (sess opItem) of
        None \<Rightarrow> s
      | Some item \<Rightarrow>
          (upd_session item (\<lambda>si. si\<lparr>queue := queue si @ [opItem]\<rparr>) s)
            \<lparr>m_note_has_work := True\<rparr>)"

definition taskRunning :: "OperationItem \<Rightarrow> 'w EngineState \<Rightarrow> 'w EngineState" where
  "taskRunning opItem s =
     (let s1 = s\<lparr>m_runningTasks := m_runningTasks s + 1\<rparr>
      in if \<not> isAsync (op opItem)
         then s1\<lparr>m_noPagingRunningTasks := m_noPagingRunningTasks s1 + 1\<rparr>
         else s1)"

definition taskStopped ::
  "'w Externals \<Rightarrow> OperationItem \<Rightarrow> bool \<Rightarrow> 'w EngineState \<Rightarrow> OperationItem \<times> 'w EngineState" where
  "taskStopped E opItem failed s =
     (let (rctx, s1) = releaseStaging E (resourceContext (op opItem)) s;
          opItem1 = opItem\<lparr>op := (op opItem)\<lparr>resourceContext := rctx\<rparr>\<rparr>;
          s2 = (if \<not> failed then
                  (if vlog_is_on E 2 then
                     (case lock s1 (sess opItem1) of
                        Some item \<Rightarrow>
                          upd_session item
                            (\<lambda>si. si\<lparr>totalExecutedOp := totalExecutedOp si + 1\<rparr>) s1
                      | None \<Rightarrow> s1)
                   else s1)
                else s1);
          s3 = s2\<lparr>m_runningTasks := m_runningTasks s2 - 1\<rparr>;
          s4 = (if \<not> isAsync (op opItem1)
                then s3\<lparr>m_noPagingRunningTasks := m_noPagingRunningTasks s3 - 1\<rparr>
                else s3)
      in (opItem1, s4))"

text \<open>The callbacks that the closure of \<open>submitTask\<close> hands to the operation.\<close>

definition cbs_done ::
  "'w Externals \<Rightarrow> OperationItem \<Rightarrow> 'w EngineState \<Rightarrow> OperationItem \<times> 'w EngineState" where
  "cbs_done E opItem s = taskStopped E opItem False s"

definition cbs_memFailure ::
  "'w Externals \<Rightarrow> OperationItem \<Rightarrow> 'w EngineState \<Rightarrow> bool \<times> 'w EngineState" where
  "cbs_memFailure E opItem s =
     (case lock s (sess opItem) of
        None \<Rightarrow> (False, s)
      | Some item \<Rightarrow>
          if \<not> protectOOM (sessions s item) then (False, s)
          else
            let (opItem1, s1) = taskStopped E opItem True s
            in (True, pushToSessionQueue opItem1 s1))"

text \<open>
  The body of the closure up to \<^verbatim>\<open>op->run(cbs)\<close>; what the operation does when run, and
  which callback it fires, is outside the engine.
\<close>

definition closureStart :: "OperationItem \<Rightarrow> 'w EngineState \<Rightarrow> 'w EngineState" where
  "closureStart opItem s =
     (case lock s (sess opItem) of
        Some item \<Rightarrow> taskRunning opItem s
      | None \<Rightarrow> s)"

definition submitTask ::
  "OperationItem \<Rightarrow> 'w EngineState \<Rightarrow> OperationItem option \<times> 'w EngineState" where
  "submitTask opItem s =
     (case lock s (sess opItem) of
        None \<Rightarrow> (None, s)
      | Some item \<Rightarrow>
          if \<not> isGood (resourceContext (op opItem)) then (Some opItem, s)
          else
            (case tryRun opItem (m_pool s) of
               (c, p) \<Rightarrow>
                 (if c = None then None else Some opItem, s\<lparr>m_pool := p\<rparr>)))"

section \<open>Paging\<close>

text \<open>
  The loops of \<open>doPaging\<close> return \<open>Some b\<close> where the source executes
  \<^verbatim>\<open>return b\<close>, and \<open>None\<close> where the loop ends; \<open>released\<close> is the local variable
  of that name.

  The inner loop over the victims of one session.
\<close>

fun volunteerVictims ::
  "'w Externals \<Rightarrow> sid \<Rightarrow> 'w PagingCallbacks \<Rightarrow> DeviceSpec \<Rightarrow> (nat \<times> ticket) list \<Rightarrow> nat
     \<Rightarrow> 'w EngineState \<Rightarrow> bool option \<times> nat \<times> 'w EngineState \<times> event list" where
  "volunteerVictims E pSess cb target [] released s = (None, released, s, [])"
| "volunteerVictims E pSess cb target ((usage, victim) # vs) released s =
     (case makeResourceContext E pSess target [(MEMORY, target) \<mapsto> usage] s of
        (rctx, s1) \<Rightarrow>
          if \<not> isGood rctx then (Some False, released, s1, [])
          else
            (case volunteer cb victim rctx (m_resMonitor s1) of
               (n, w) \<Rightarrow>
                 if released + n > 0
                 then (Some True, released + n, s1\<lparr>m_resMonitor := w\<rparr>,
                       [EvVolunteer pSess victim])
                 else
                   (case volunteerVictims E pSess cb target vs (released + n)
                           (s1\<lparr>m_resMonitor := w\<rparr>) of
                      (r, rel, s2, es) \<Rightarrow> (r, rel, s2, EvVolunteer pSess victim # es))))"

text \<open>Step 2, the loop \<^verbatim>\<open>for (size_t i = 1; i != candidates.size(); ++i)\<close>.\<close>

fun volunteerLoop ::
  "'w Externals \<Rightarrow> DeviceSpec \<Rightarrow> (nat \<times> sid) list \<Rightarrow> nat \<Rightarrow> 'w EngineState
     \<Rightarrow> bool option \<times> nat \<times> 'w EngineState \<times> event list" where
  "volunteerLoop E target [] released s = (None, released, s, [])"
| "volunteerLoop E target ((usage, pSess) # rest) released s =
     (if tickets (sessions s pSess) = {} then (None, released, s, [])
      else
        (case pagingCb (sessions s pSess) of
           None \<Rightarrow> volunteerLoop E target rest released s
         | Some cb \<Rightarrow>
             (case volunteerVictims E pSess cb target
                     (sortVictim E (tickets (sessions s pSess)) (m_resMonitor s)) released s of
                (Some b, rel, s1, es) \<Rightarrow> (Some b, rel, s1, es)
              | (None, rel, s1, es) \<Rightarrow>
                  (case volunteerLoop E target rest rel s1 of
                     (r, rel2, s2, es2) \<Rightarrow> (r, rel2, s2, es @ es2)))))"

text \<open>The last loop: forcibly kill one session. \<open>Some h\<close> is \<^verbatim>\<open>return true\<close> with
  \<^verbatim>\<open>forceEvicitedSess = h\<close>.\<close>

fun forceEvictLoop ::
  "(nat \<times> sid) list \<Rightarrow> 'w EngineState \<Rightarrow> string option \<times> 'w EngineState \<times> event list" where
  "forceEvictLoop [] s = (None, s, [])"
| "forceEvictLoop ((usage, pSess) # rest) s =
     (case pagingCb (sessions s pSess) of
        None \<Rightarrow> forceEvictLoop rest s
      | Some cb \<Rightarrow>
          let s1 = upd_session pSess (\<lambda>si. si\<lparr>protectOOM := False, forceEvicted := True\<rparr>) s
          in (Some (sessHandle (sessions s pSess)),
              s1\<lparr>m_resMonitor := forceEvictedCb cb (m_resMonitor s1)\<rparr>,
              [EvForceEvicted pSess]))"

text \<open>
  Step 1: the pairs of usage and session, in the order of \<open>m_sessions\<close>, and then
  sorted with the comparator \<^verbatim>\<open>lhs.first > rhs.first\<close>.
\<close>

definition usageOfSessions :: "DeviceSpec \<Rightarrow> 'w EngineState \<Rightarrow> (nat \<times> sid) list" where
  "usageOfSessions spec s =
     map (\<lambda>pSess. (resourceUsage (sessions s pSess) (MEMORY, spec), pSess)) (m_sessions s)"

definition pagingCandidates ::
  "'w Externals \<Rightarrow> DeviceSpec \<Rightarrow> 'w EngineState \<Rightarrow> (nat \<times> sid) list" where
  "pagingCandidates E spec s = std_sort E (usageOfSessions spec s)"

text \<open>
  What C++ promises of \<^verbatim>\<open>std::sort\<close> for this call: the result is a permutation of the
  candidates, and no element is followed by one the comparator puts before it, that
  is, usage never increases along the list.
\<close>

definition std_sort_post :: "'w Externals \<Rightarrow> DeviceSpec \<Rightarrow> 'w EngineState \<Rightarrow> bool" where
  "std_sort_post E spec s =
     (mset (pagingCandidates E spec s) = mset (usageOfSessions spec s) \<and>
      sorted_wrt (\<lambda>lhs rhs. fst rhs \<le> fst lhs) (pagingCandidates E spec s))"

text \<open>
  \<open>doPaging\<close>. The scope guard logs \<open>released\<close> and \<open>forceEvicitedSess\<close> on every
  way out: the event \<open>EvPagingLog\<close>.
\<close>

definition doPaging ::
  "'w Externals \<Rightarrow> DeviceSpec \<Rightarrow> DeviceSpec \<Rightarrow> 'w EngineState
     \<Rightarrow> bool \<times> 'w EngineState \<times> event list" where
  "doPaging E spec target s =
     (let candidates = pagingCandidates E spec s
      in if length candidates \<le> 1 then (False, s, [EvPagingLog 0 []])
         else
           (case volunteerLoop E target (tl candidates) 0 s of
              (Some b, released, s1, es) \<Rightarrow> (b, s1, es @ [EvPagingLog released []])
            | (None, released, s1, es) \<Rightarrow>
                (case forceEvictLoop candidates s1 of
                   (Some h, s2, es2) \<Rightarrow> (True, s2, es @ es2 @ [EvPagingLog released h])
                 | (None, s2, es2) \<Rightarrow> (False, s2, es @ es2 @ [EvPagingLog released []]))))"

section \<open>The scheduling loop\<close>

record SessionChangeSet =
  deletedSessions :: "sid set"
  numAddedSessions :: nat
  addedSessions :: "sid list"

text \<open>
  The scheduling policy is a plug-in (\<^verbatim>\<open>BaseScheduler\<close>, not in the sources): its
  functions are parameters. They may change the engine (\<open>maybeScheduleFrom\<close> takes
  operations out of \<open>bgQueue\<close> and submits them). \<open>candidates\<close> lives across
  iterations and is handed to the policy by pointer.
\<close>

record 'w Scheduler =
  notifyPreSchedulingIteration ::
    "SessionChangeSet \<Rightarrow> sid list \<Rightarrow> 'w EngineState \<Rightarrow> sid list \<times> 'w EngineState"
  maybeScheduleFrom :: "sid \<Rightarrow> 'w EngineState \<Rightarrow> (nat \<times> bool) \<times> 'w EngineState"
  insufficientMemory :: "DeviceSpec \<Rightarrow> 'w EngineState \<Rightarrow> bool"

text \<open>
  \<open>maybeWaitForAWhile\<close>: \<open>now\<close> is the reading of the system clock in nanoseconds,
  \<open>wait_last\<close> and \<open>wait_sleep\<close> are the function's static variables \<^verbatim>\<open>last\<close> (a time
  point) and \<^verbatim>\<open>sleep\<close> (in milliseconds).
\<close>

definition maybeWaitForAWhile ::
  "int \<Rightarrow> nat \<Rightarrow> 'w EngineState \<Rightarrow> bool \<times> 'w EngineState \<times> event list" where
  "maybeWaitForAWhile now scheduled s =
     (let initialSleep = 10;
          getBored = 20;
          s1 = (if scheduled > 0 then s\<lparr>wait_last := now, wait_sleep := initialSleep\<rparr> else s);
          idle = now - wait_last s1
      in if idle \<le> getBored * 1000000 then (False, s1, [])
         else (True, s1\<lparr>wait_sleep := wait_sleep s1 * 2\<rparr>, [EvSleep (wait_sleep s1)]))"

text \<open>Pending deletions are taken out of the live list, pending additions appended.\<close>

definition ingestSessions :: "'w EngineState \<Rightarrow> SessionChangeSet \<times> 'w EngineState" where
  "ingestSessions s =
     (let deleted = m_deletedSessions s;
          s1 = s\<lparr>m_deletedSessions := {}\<rparr>;
          s2 = s1\<lparr>m_sessions := filter (\<lambda>x. x \<notin> deleted) (m_sessions s1)\<rparr>;
          added = m_newSessions s2;
          s3 = s2\<lparr>m_sessions := m_sessions s2 @ added, m_newSessions := []\<rparr>
      in (\<lparr>deletedSessions = deleted, numAddedSessions = length added, addedSessions = added\<rparr>,
          s3))"

text \<open>
  \<^verbatim>\<open>bgQueue.clear()\<close> drops the queue's pointers to its operation items. The queue
  holds the only pointer to an item that \<^verbatim>\<open>enqueueOperation\<close> has put there, so the
  items are destroyed, front to back, and with each its operation and the resource
  context the operation owns.
\<close>

fun destroyOperations ::
  "'w Externals \<Rightarrow> OperationItem list \<Rightarrow> 'w EngineState \<Rightarrow> 'w EngineState" where
  "destroyOperations E [] s = s"
| "destroyOperations E (opItem # rest) s =
     destroyOperations E rest (snd (destroyResourceContext E (resourceContext (op opItem)) s))"

text \<open>The body of the loop that prepares each live session for this iteration.\<close>

definition prepareSession ::
  "'w Externals \<Rightarrow> bool \<Rightarrow> sid \<Rightarrow> nat \<Rightarrow> 'w EngineState
     \<Rightarrow> nat \<times> 'w EngineState \<times> event list" where
  "prepareSession E enableOOMProtect item totalRemainingCount s =
     (let s1 = upd_session item (\<lambda>si. si\<lparr>bgQueue := bgQueue si @ queue si, queue := []\<rparr>) s;
          (s2, es) =
            (if forceEvicted (sessions s1 item)
             then (destroyOperations E (bgQueue (sessions s1 item))
                     (upd_session item (\<lambda>si. si\<lparr>bgQueue := []\<rparr>) s1),
                   map (\<lambda>opItem. EvCancel item (opId (op opItem))) (bgQueue (sessions s1 item)))
             else (s1, []));
          total1 = totalRemainingCount + length (bgQueue (sessions s2 item));
          s3 = upd_session item (\<lambda>si. si\<lparr>protectOOM := enableOOMProtect, lastScheduled := 0\<rparr>) s2
      in (total1, s3, es))"

fun prepareSessions ::
  "'w Externals \<Rightarrow> bool \<Rightarrow> sid list \<Rightarrow> nat \<Rightarrow> 'w EngineState
     \<Rightarrow> nat \<times> 'w EngineState \<times> event list" where
  "prepareSessions E enableOOMProtect [] totalRemainingCount s = (totalRemainingCount, s, [])"
| "prepareSessions E enableOOMProtect (item # rest) totalRemainingCount s =
     (case prepareSession E enableOOMProtect item totalRemainingCount s of
        (total1, s1, es) \<Rightarrow>
          (case prepareSessions E enableOOMProtect rest total1 s1 of
             (total2, s2, es2) \<Rightarrow> (total2, s2, es @ es2)))"

text \<open>The iteration from its start to the end of the preparation loop.\<close>

definition iterBegin ::
  "'w Externals \<Rightarrow> 'w EngineState \<Rightarrow> SessionChangeSet \<times> nat \<times> 'w EngineState \<times> event list" where
  "iterBegin E s =
     (case ingestSessions s of
        (changeset, s1) \<Rightarrow>
          (case prepareSessions E (length (m_sessions s1) > 1) (m_sessions s1) 0 s1 of
             (totalRemainingCount, s2, es) \<Rightarrow> (changeset, totalRemainingCount, s2, es)))"

text \<open>
  Scheduling from the candidate sessions, with the early \<^verbatim>\<open>break\<close>; \<open>cnt\<close> is the
  source's \<^verbatim>\<open>count\<close>.
\<close>

fun scheduleCandidates ::
  "'w Scheduler \<Rightarrow> sid list \<Rightarrow> nat \<Rightarrow> nat \<Rightarrow> 'w EngineState \<Rightarrow> nat \<times> nat \<times> 'w EngineState" where
  "scheduleCandidates P [] remainingCount scheduled s = (remainingCount, scheduled, s)"
| "scheduleCandidates P (item # rest) remainingCount scheduled s =
     (case maybeScheduleFrom P item s of
        ((cnt, shouldContinue), s1) \<Rightarrow>
          let s2 = upd_session item (\<lambda>si. si\<lparr>lastScheduled := cnt\<rparr>) s1;
              remainingCount1 = remainingCount + length (bgQueue (sessions s2 item));
              scheduled1 = scheduled + lastScheduled (sessions s2 item)
          in if \<not> shouldContinue then (remainingCount1, scheduled1, s2)
             else scheduleCandidates P rest remainingCount1 scheduled1 s2)"

text \<open>The iteration up to the end of scheduling: what the paging check starts from.\<close>

definition iterSchedule ::
  "'w Scheduler \<Rightarrow> 'w Externals \<Rightarrow> sid list \<Rightarrow> 'w EngineState
     \<Rightarrow> nat \<times> nat \<times> nat \<times> sid list \<times> 'w EngineState \<times> event list" where
  "iterSchedule P E candidates0 s =
     (case iterBegin E s of
        (changeset, totalRemainingCount, s2, es) \<Rightarrow>
          (case notifyPreSchedulingIteration P changeset candidates0 s2 of
             (candidates, s3) \<Rightarrow>
               (case scheduleCandidates P candidates 0 0 s3 of
                  (remainingCount, scheduled, s4) \<Rightarrow>
                    (totalRemainingCount, remainingCount, scheduled, candidates, s4, es))))"

text \<open>"Update conditions and check if we need paging".\<close>

definition checkPaging ::
  "'w Scheduler \<Rightarrow> 'w Externals \<Rightarrow> nat \<Rightarrow> nat \<Rightarrow> 'w EngineState
     \<Rightarrow> bool \<times> 'w EngineState \<times> event list" where
  "checkPaging P E remainingCount scheduled s =
     (let noProgress = (remainingCount > 0 \<and> scheduled = 0 \<and> m_noPagingRunningTasks s = 0)
      in if noProgress \<and> insufficientMemory P GPU0 s then
           (if length (m_sessions s) > 1 then doPaging E GPU0 CPU0 s
            else if length (m_sessions s) = 1
            then (False, s, [EvSingleSessionOOM (sessHandle (sessions s (hd (m_sessions s))))])
            else (False, s, []))
         else (False, s, []))"

text \<open>
  One iteration of \<^verbatim>\<open>while (!m_shouldExit)\<close>. \<open>Restart\<close> is the \<^verbatim>\<open>continue\<close> after a
  successful paging; \<open>Proceeded\<close> is the end of the body.
\<close>

datatype iter_outcome = Restart | Proceeded

definition scheduleIter ::
  "'w Scheduler \<Rightarrow> 'w Externals \<Rightarrow> int \<Rightarrow> sid list \<Rightarrow> 'w EngineState
     \<Rightarrow> iter_outcome \<times> sid list \<times> 'w EngineState \<times> event list" where
  "scheduleIter P E now candidates0 s =
     (case iterSchedule P E candidates0 s of
        (totalRemainingCount, remainingCount, scheduled, candidates, s4, es) \<Rightarrow>
          (case checkPaging P E remainingCount scheduled s4 of
             (didPaging, s5, es5) \<Rightarrow>
               if didPaging then (Restart, candidates, s5, es @ es5)
               else
                 (case maybeWaitForAWhile now scheduled s5 of
                    (slept, s6, es6) \<Rightarrow>
                      if totalRemainingCount = 0
                      then (Proceeded, candidates, s6\<lparr>m_note_has_work := False\<rparr>,
                            es @ es5 @ es6 @ [EvWaitWork])
                      else (Proceeded, candidates, s6, es @ es5 @ es6))))"

section \<open>Classifying events\<close>

fun isForceEvictedEv :: "event \<Rightarrow> bool" where
  "isForceEvictedEv (EvForceEvicted p) = True"
| "isForceEvictedEv _ = False"

fun isCancelOf :: "sid \<Rightarrow> event \<Rightarrow> bool" where
  "isCancelOf p (EvCancel q n) = (p = q)"
| "isCancelOf p _ = False"

fun isCancelEv :: "event \<Rightarrow> bool" where
  "isCancelEv (EvCancel q n) = True"
| "isCancelEv _ = False"

fun isPagingLogEv :: "event \<Rightarrow> bool" where
  "isPagingLogEv (EvPagingLog r h) = True"
| "isPagingLogEv _ = False"

fun isWaitEv :: "event \<Rightarrow> bool" where
  "isWaitEv (EvSleep d) = True"
| "isWaitEv EvWaitWork = True"
| "isWaitEv _ = False"

section \<open>Example configurations\<close>

text \<open>
  One \<^verbatim>\<open>std::sort\<close>: an insertion sort that keeps candidates of equal usage in the
  order they have in \<open>m_sessions\<close>.
\<close>

fun insert_desc :: "nat \<times> 'a \<Rightarrow> (nat \<times> 'a) list \<Rightarrow> (nat \<times> 'a) list" where
  "insert_desc x [] = [x]"
| "insert_desc x (y # ys) = (if fst y > fst x then y # insert_desc x ys else x # y # ys)"

definition sort_desc :: "(nat \<times> 'a) list \<Rightarrow> (nat \<times> 'a) list" where
  "sort_desc xs = foldr insert_desc xs []"

text \<open>
  Another \<^verbatim>\<open>std::sort\<close>: it puts a candidate behind those of equal usage that follow it
  in \<open>m_sessions\<close>.
\<close>

fun insert_desc_after :: "nat \<times> 'a \<Rightarrow> (nat \<times> 'a) list \<Rightarrow> (nat \<times> 'a) list" where
  "insert_desc_after x [] = [x]"
| "insert_desc_after x (y # ys) =
     (if fst y \<ge> fst x then y # insert_desc_after x ys else x # y # ys)"

definition sort_desc_after :: "(nat \<times> 'a) list \<Rightarrow> (nat \<times> 'a) list" where
  "sort_desc_after xs = foldr insert_desc_after xs []"

text \<open>
  A small concrete world: the monitor state is the number of free bytes on the CPU,
  every ticket holds 50 bytes, which freeing its staging gives back, and a
  pre-allocation on the CPU succeeds while enough bytes are free. \<open>ex_env verbose\<close> switches \<^verbatim>\<open>VLOG_IS_ON\<close>.
\<close>

definition ex_env :: "bool \<Rightarrow> nat Externals" where
  "ex_env verbose =
     \<lparr>preAllocate = (\<lambda>res w. case res (MEMORY, CPU0) of
                                 Some n \<Rightarrow> if n \<le> w then (Some 99, w - n) else (None, w)
                               | None \<Rightarrow> (None, w)),
      freeStaging = (\<lambda>t w. w + 50),
      hasUsage = (\<lambda>t w. False),
      sortVictim = (\<lambda>ts w. map (\<lambda>t. (50, t)) (filter (\<lambda>t. t \<in> ts) [1, 2, 3])),
      vlog_is_on = (\<lambda>level. verbose),
      std_sort = sort_desc\<rparr>"

definition ex_env_after :: "nat Externals" where
  "ex_env_after = (ex_env False)\<lparr>std_sort := sort_desc_after\<rparr>"

definition ex_cb :: "nat \<Rightarrow> nat PagingCallbacks" where
  "ex_cb n = \<lparr>volunteer = (\<lambda>t rc w. (n, w)), forceEvictedCb = (\<lambda>w. w)\<rparr>"

definition ex_session ::
  "string \<Rightarrow> nat \<Rightarrow> ticket set \<Rightarrow> nat PagingCallbacks option \<Rightarrow> nat SessionItem" where
  "ex_session h usage ts cb =
     \<lparr>sessHandle = h, queue = [], bgQueue = [], tickets = ts, pagingCb = cb,
      protectOOM = True, forceEvicted = False, lastScheduled = 0, totalExecutedOp = 0,
      resourceUsage = (\<lambda>tag. if tag = (MEMORY, GPU0) then usage else 0)\<rparr>"

definition ex_op :: "nat \<Rightarrow> bool \<Rightarrow> bool \<Rightarrow> OperationItem" where
  "ex_op i async staged =
     \<lparr>sess = 1,
      op = \<lparr>opId = i, isAsync = async,
            resourceContext = \<lparr>m_spec = GPU0, m_ticket = 1, session = 1, hasStaging = staged\<rparr>\<rparr>\<rparr>"

definition ex_engine :: "(sid \<Rightarrow> nat SessionItem) \<Rightarrow> sid list \<Rightarrow> nat \<Rightarrow> nat EngineState" where
  "ex_engine store live cpu_free =
     \<lparr>sessions = store, expired = {}, m_sessions = live, m_newSessions = [],
      m_deletedSessions = {}, m_runningTasks = 1, m_noPagingRunningTasks = 0,
      m_resMonitor = cpu_free, m_pool = \<lparr>poolCapacity = 1, poolQueued = []\<rparr>,
      m_note_has_work = False, wait_last = 0, wait_sleep = 10\<rparr>"

definition ex_store ::
  "nat SessionItem \<Rightarrow> nat SessionItem \<Rightarrow> nat SessionItem \<Rightarrow> sid \<Rightarrow> nat SessionItem" where
  "ex_store a b c = (\<lambda>p. if p = 1 then a else if p = 2 then b else c)"

text \<open>
  Three sessions; B, the second largest, owns no ticket, and C would release 64 bytes.
\<close>

definition ex_break :: "nat EngineState" where
  "ex_break =
     ex_engine (ex_store (ex_session ''A'' 900 {1} (Some (ex_cb 0)))
                         (ex_session ''B'' 200 {} (Some (ex_cb 0)))
                         (ex_session ''C'' 100 {3} (Some (ex_cb 64))))
       [3, 2, 1] 1000"

text \<open>
  Two sessions, A (900 bytes on GPU 0) and B (100 bytes), with the given paging
  callbacks and free CPU memory; a single session; a force-evicted session with
  pending operations; and two engines that cannot make progress.
\<close>

definition ex_two :: "nat PagingCallbacks option \<Rightarrow> nat PagingCallbacks option \<Rightarrow> nat \<Rightarrow> nat EngineState" where
  "ex_two cbA cbB cpu_free =
     ex_engine (ex_store (ex_session ''A'' 900 {1} cbA)
                         (ex_session ''B'' 100 {2} cbB)
                         (ex_session [] 0 {} None))
       [2, 1] cpu_free"

definition ex_single :: "nat EngineState" where
  "ex_single =
     ex_engine (ex_store (ex_session ''A'' 900 {1} (Some (ex_cb 0)))
                         (ex_session [] 0 {} None) (ex_session [] 0 {} None))
       [1] 1000"

definition ex_queued :: "nat EngineState" where
  "ex_queued =
     ex_engine (ex_store ((ex_session ''A'' 900 {1} (Some (ex_cb 0)))
                            \<lparr>queue := [ex_op 11 False True], bgQueue := [ex_op 10 False True],
                             protectOOM := False, forceEvicted := True\<rparr>)
                         ((ex_session ''B'' 100 {2} None)
                            \<lparr>bgQueue := [(ex_op 20 False True)\<lparr>sess := 2\<rparr>]\<rparr>)
                         (ex_session [] 0 {} None))
       [1, 2] 1000"

definition ex_stalled :: "nat EngineState" where
  "ex_stalled =
     ex_engine (ex_store (ex_session ''A'' 900 {1} None)
                         ((ex_session ''B'' 100 {2} (Some (ex_cb 64)))
                            \<lparr>queue := [(ex_op 20 False True)\<lparr>sess := 2\<rparr>]\<rparr>)
                         (ex_session [] 0 {} None))
       [1, 2] 1000"

definition ex_stalled_single :: "nat EngineState" where
  "ex_stalled_single =
     ex_engine (ex_store ((ex_session ''A'' 900 {1} None)\<lparr>queue := [ex_op 10 False True]\<rparr>)
                         (ex_session [] 0 {} None) (ex_session [] 0 {} None))
       [1] 1000"

text \<open>Two sessions of equal usage, listed as B, A.\<close>

definition ex_tie :: "nat EngineState" where
  "ex_tie =
     ex_engine (ex_store (ex_session ''A'' 500 {1} (Some (ex_cb 0)))
                         (ex_session ''B'' 500 {2} (Some (ex_cb 0)))
                         (ex_session [] 0 {} None))
       [2, 1] 1000"

text \<open>
  Four sessions; in order of usage A, D, B, C, of which B owns no ticket, D releases
  nothing and C would release 64 bytes.
\<close>

definition ex_break4 :: "nat EngineState" where
  "ex_break4 =
     ex_engine (\<lambda>p. if p = 4 then ex_session ''D'' 500 {2} (Some (ex_cb 0))
                     else ex_store (ex_session ''A'' 900 {1} (Some (ex_cb 0)))
                                   (ex_session ''B'' 200 {} (Some (ex_cb 0)))
                                   (ex_session ''C'' 100 {3} (Some (ex_cb 64))) p)
       [4, 3, 2, 1] 1000"

text \<open>
  A policy that offers every live session, schedules nothing and reports that memory
  is insufficient.
\<close>

definition ex_policy :: "nat Scheduler" where
  "ex_policy =
     \<lparr>notifyPreSchedulingIteration = (\<lambda>changeset candidates s. (m_sessions s, s)),
      maybeScheduleFrom = (\<lambda>item s. ((0, True), s)),
      insufficientMemory = (\<lambda>dev s. True)\<rparr>"

lemmas ex_defs =
  pagingCandidates_def usageOfSessions_def sort_desc_def sort_desc_after_def ex_env_after_def
  ex_break_def ex_break4_def ex_tie_def ex_two_def ex_single_def ex_queued_def
  ex_engine_def ex_store_def ex_session_def ex_cb_def ex_env_def ex_op_def ex_policy_def
  doPaging_def Let_def upd_session_def makeResourceContext_def initializeStaging_def
  newResourceContext_def isGood_def GPU0_def CPU0_def lock_def

lemmas ex_iter_defs =
  ex_stalled_def ex_stalled_single_def iterSchedule_def iterBegin_def ingestSessions_def
  prepareSession_def checkPaging_def scheduleIter_def maybeWaitForAWhile_def

lemmas ex_task_defs =
  cbs_memFailure_def cbs_done_def taskStopped_def releaseStaging_def pushToSessionQueue_def
  removeTicketFromSession_def removeMemoryAllocationTicket_def submitTask_def tryRun_def
  destroyResourceContext_def

section \<open>Properties of ResourceContext\<close>

text \<open>
  Claim C10. \<open>releaseStaging\<close> is idempotent: after one call \<open>hasStaging\<close> is
  false, and a further call, also the one the destructor makes, changes neither the
  context nor the engine. The ticket leaves the session's ticket set on exactly the
  call that releases staging and finds that the monitor reports no usage left for the
  ticket; no other session's tickets change.
\<close>

theorem releaseStaging_idempotent:
  "hasStaging (fst (releaseStaging E rc s)) = False \<and>
   releaseStaging E (fst (releaseStaging E rc s)) (snd (releaseStaging E rc s))
     = releaseStaging E rc s \<and>
   destroyResourceContext E (fst (releaseStaging E rc s)) (snd (releaseStaging E rc s))
     = releaseStaging E rc s \<and>
   tickets (sessions (snd (releaseStaging E rc s)) p) =
     (if hasStaging rc \<and> p = session rc \<and>
         \<not> hasUsage E (m_ticket rc) (freeStaging E (m_ticket rc) (m_resMonitor s))
      then tickets (sessions s p) - {m_ticket rc}
      else tickets (sessions s p))"
  by (simp add: releaseStaging_def destroyResourceContext_def Let_def
        removeTicketFromSession_def upd_session_def removeMemoryAllocationTicket_def)

text \<open>
  At a staged context of session 1 whose ticket has no usage left: the ticket is
  removed and the second release is the identity.
\<close>

theorem releaseStaging_idempotent_witness:
  "releaseStaging (ex_env False) (resourceContext (op (ex_op 10 False True))) ex_single =
     (resourceContext (op (ex_op 10 False False)),
      snd (releaseStaging (ex_env False) (resourceContext (op (ex_op 10 False True))) ex_single)) \<and>
   tickets (sessions (snd (releaseStaging (ex_env False)
                             (resourceContext (op (ex_op 10 False True))) ex_single)) 1) = {} \<and>
   releaseStaging (ex_env False) (resourceContext (op (ex_op 10 False False)))
       (snd (releaseStaging (ex_env False) (resourceContext (op (ex_op 10 False True))) ex_single)) =
     releaseStaging (ex_env False) (resourceContext (op (ex_op 10 False True))) ex_single"
  using releaseStaging_idempotent[where E = "ex_env False"
          and rc = "resourceContext (op (ex_op 10 False True))" and s = ex_single and p = 1]
  by (simp add: ex_defs ex_task_defs)

section \<open>Properties of the task life cycle\<close>

lemma releaseStaging_other_fields:
  "totalExecutedOp (sessions (snd (releaseStaging E rc s)) p) = totalExecutedOp (sessions s p)"
  "queue (sessions (snd (releaseStaging E rc s)) p) = queue (sessions s p)"
  "protectOOM (sessions (snd (releaseStaging E rc s)) p) = protectOOM (sessions s p)"
  "expired (snd (releaseStaging E rc s)) = expired s"
  "m_runningTasks (snd (releaseStaging E rc s)) = m_runningTasks s"
  "m_noPagingRunningTasks (snd (releaseStaging E rc s)) = m_noPagingRunningTasks s"
  "bgQueue (sessions (snd (releaseStaging E rc s)) p) = bgQueue (sessions s p)"
  "forceEvicted (sessions (snd (releaseStaging E rc s)) p) = forceEvicted (sessions s p)"
  "m_sessions (snd (releaseStaging E rc s)) = m_sessions s"
  by (simp_all add: releaseStaging_def Let_def
        removeTicketFromSession_def upd_session_def removeMemoryAllocationTicket_def)

text \<open>
  Claim C2, as the code has it. When an operation completes successfully
  (\<open>cbs_done\<close>, that is \<open>taskStopped\<close> with \<open>failed = False\<close>), \<open>m_runningTasks\<close>
  goes down by one, and so does \<open>m_noPagingRunningTasks\<close> when the operation is
  synchronous. \<open>totalExecutedOp\<close> of the owning session goes up by one only if
  \<^verbatim>\<open>VLOG_IS_ON(2)\<close> holds and the session is still alive; otherwise no session's
  counter changes.
\<close>

theorem taskStopped_success:
  "cbs_done E opItem s = taskStopped E opItem False s \<and>
   totalExecutedOp (sessions (snd (taskStopped E opItem False s)) p) =
     totalExecutedOp (sessions s p) +
       (if vlog_is_on E 2 \<and> sess opItem \<notin> expired s \<and> p = sess opItem then 1 else 0) \<and>
   m_runningTasks (snd (taskStopped E opItem False s)) = m_runningTasks s - 1 \<and>
   m_noPagingRunningTasks (snd (taskStopped E opItem False s)) =
     (if isAsync (op opItem) then m_noPagingRunningTasks s else m_noPagingRunningTasks s - 1)"
  by (simp add: cbs_done_def taskStopped_def Let_def split_beta lock_def upd_session_def
        releaseStaging_other_fields)

text \<open>
  With verbose logging off, a successful completion in a live session leaves
  \<open>totalExecutedOp\<close> at 0: the increment is not unconditional.
\<close>

theorem totalExecutedOp_unconditional_counterexample:
  "sess (ex_op 10 False True) \<notin> expired ex_single \<and>
   totalExecutedOp (sessions ex_single 1) = 0 \<and>
   totalExecutedOp (sessions (snd (cbs_done (ex_env False) (ex_op 10 False True) ex_single)) 1) = 0"
  by (simp add: ex_defs cbs_done_def taskStopped_def releaseStaging_def
        removeTicketFromSession_def removeMemoryAllocationTicket_def)

text \<open>
  The same completion with and without verbose logging.
\<close>

theorem taskStopped_success_witness:
  "totalExecutedOp (sessions (snd (taskStopped (ex_env True) (ex_op 10 False True) False ex_single)) 1)
     = 1 \<and>
   totalExecutedOp (sessions (snd (taskStopped (ex_env False) (ex_op 10 False True) False ex_single)) 1)
     = 0 \<and>
   m_runningTasks (snd (taskStopped (ex_env True) (ex_op 10 False True) False ex_single)) = 0 \<and>
   m_noPagingRunningTasks (snd (taskStopped (ex_env True) (ex_op 10 False True) False ex_single))
     = -1"
  using taskStopped_success[where E = "ex_env True" and opItem = "ex_op 10 False True"
          and s = ex_single and p = 1]
        taskStopped_success[where E = "ex_env False" and opItem = "ex_op 10 False True"
          and s = ex_single and p = 1]
  by (simp add: ex_defs)

text \<open>
  Claim C6. The \<open>memFailure\<close> callback returns false and changes nothing when the
  session is expired, and likewise when the session's \<open>protectOOM\<close> is false.
  Otherwise it returns true after \<open>taskStopped\<close> with \<open>failed = True\<close>: the staging
  of the operation is released (a staged context is freed in the monitor and loses
  its flag, and its ticket leaves the ticket set of its session when the monitor
  reports no usage left), the running counters go down, no \<open>totalExecutedOp\<close>
  changes, the operation is appended to the front queue of its session and the
  scheduler is notified.
\<close>

theorem memFailure_cases:
  "(sess opItem \<in> expired s \<longrightarrow> cbs_memFailure E opItem s = (False, s)) \<and>
   (sess opItem \<notin> expired s \<and> \<not> protectOOM (sessions s (sess opItem)) \<longrightarrow>
      cbs_memFailure E opItem s = (False, s)) \<and>
   (sess opItem \<notin> expired s \<and> protectOOM (sessions s (sess opItem)) \<longrightarrow>
      cbs_memFailure E opItem s =
        (True, pushToSessionQueue (fst (taskStopped E opItem True s))
                 (snd (taskStopped E opItem True s))) \<and>
      fst (taskStopped E opItem True s) =
        opItem\<lparr>op := (op opItem)\<lparr>resourceContext :=
          fst (releaseStaging E (resourceContext (op opItem)) s)\<rparr>\<rparr> \<and>
      \<not> hasStaging (resourceContext (op (fst (taskStopped E opItem True s)))) \<and>
      m_resMonitor (snd (cbs_memFailure E opItem s)) =
        (if hasStaging (resourceContext (op opItem))
         then freeStaging E (m_ticket (resourceContext (op opItem))) (m_resMonitor s)
         else m_resMonitor s) \<and>
      (\<forall>p. tickets (sessions (snd (cbs_memFailure E opItem s)) p) =
            (if hasStaging (resourceContext (op opItem)) \<and>
                p = session (resourceContext (op opItem)) \<and>
                \<not> hasUsage E (m_ticket (resourceContext (op opItem)))
                     (freeStaging E (m_ticket (resourceContext (op opItem))) (m_resMonitor s))
             then tickets (sessions s p) - {m_ticket (resourceContext (op opItem))}
             else tickets (sessions s p))) \<and>
      queue (sessions (snd (cbs_memFailure E opItem s)) (sess opItem)) =
        queue (sessions s (sess opItem)) @ [fst (taskStopped E opItem True s)] \<and>
      (\<forall>p. p \<noteq> sess opItem \<longrightarrow>
            queue (sessions (snd (cbs_memFailure E opItem s)) p) = queue (sessions s p)) \<and>
      m_note_has_work (snd (cbs_memFailure E opItem s)) \<and>
      (\<forall>p. totalExecutedOp (sessions (snd (cbs_memFailure E opItem s)) p) =
            totalExecutedOp (sessions s p)) \<and>
      m_runningTasks (snd (cbs_memFailure E opItem s)) = m_runningTasks s - 1 \<and>
      m_noPagingRunningTasks (snd (cbs_memFailure E opItem s)) =
        (if isAsync (op opItem) then m_noPagingRunningTasks s
         else m_noPagingRunningTasks s - 1))"
  by (simp add: cbs_memFailure_def taskStopped_def Let_def split_beta lock_def upd_session_def
        pushToSessionQueue_def releaseStaging_other_fields)
     (simp add: releaseStaging_def Let_def removeTicketFromSession_def upd_session_def
        removeMemoryAllocationTicket_def)

text \<open>
  The three cases: an expired session, a session without OOM protection, and a
  protected session: the 50 bytes staged by its operation are given back to the
  monitor, ticket 1 leaves the session, and the operation is back on the queue.
\<close>

theorem memFailure_cases_witness:
  "sess (ex_op 10 False True) \<in> expired (ex_single\<lparr>expired := {1}\<rparr>) \<and>
   cbs_memFailure (ex_env False) (ex_op 10 False True) (ex_single\<lparr>expired := {1}\<rparr>) =
     (False, ex_single\<lparr>expired := {1}\<rparr>) \<and>
   \<not> protectOOM (sessions ex_queued (sess (ex_op 10 False True))) \<and>
   cbs_memFailure (ex_env False) (ex_op 10 False True) ex_queued = (False, ex_queued) \<and>
   protectOOM (sessions ex_single (sess (ex_op 10 False True))) \<and>
   fst (cbs_memFailure (ex_env False) (ex_op 10 False True) ex_single) = True \<and>
   m_resMonitor ex_single = 1000 \<and>
   m_resMonitor (snd (cbs_memFailure (ex_env False) (ex_op 10 False True) ex_single)) = 1050 \<and>
   tickets (sessions ex_single 1) = {1} \<and>
   tickets (sessions (snd (cbs_memFailure (ex_env False) (ex_op 10 False True) ex_single)) 1)
     = {} \<and>
   queue (sessions (snd (cbs_memFailure (ex_env False) (ex_op 10 False True) ex_single)) 1) =
     [ex_op 10 False False] \<and>
   m_note_has_work (snd (cbs_memFailure (ex_env False) (ex_op 10 False True) ex_single)) \<and>
   totalExecutedOp (sessions (snd (cbs_memFailure (ex_env False) (ex_op 10 False True) ex_single)) 1)
     = 0 \<and>
   m_runningTasks (snd (cbs_memFailure (ex_env False) (ex_op 10 False True) ex_single)) = 0"
  using memFailure_cases[where opItem = "ex_op 10 False True" and E = "ex_env False"
          and s = "ex_single\<lparr>expired := {1}\<rparr>"]
        memFailure_cases[where opItem = "ex_op 10 False True" and E = "ex_env False"
          and s = ex_queued]
        memFailure_cases[where opItem = "ex_op 10 False True" and E = "ex_env False"
          and s = ex_single]
  by (simp add: ex_defs ex_task_defs)

text \<open>
  Claim C7. \<open>submitTask\<close> returns null and drops the operation when the session is
  expired; returns the operation, unscheduled, when its resource context is not good;
  returns the operation, unscheduled, when the pool is full; and returns null when the
  pool takes the closure.
\<close>

theorem submitTask_cases:
  "(sess opItem \<in> expired s \<longrightarrow> submitTask opItem s = (None, s)) \<and>
   (sess opItem \<notin> expired s \<and> \<not> isGood (resourceContext (op opItem)) \<longrightarrow>
      submitTask opItem s = (Some opItem, s)) \<and>
   (sess opItem \<notin> expired s \<and> isGood (resourceContext (op opItem)) \<and>
    \<not> length (poolQueued (m_pool s)) < poolCapacity (m_pool s) \<longrightarrow>
      submitTask opItem s = (Some opItem, s)) \<and>
   (sess opItem \<notin> expired s \<and> isGood (resourceContext (op opItem)) \<and>
    length (poolQueued (m_pool s)) < poolCapacity (m_pool s) \<longrightarrow>
      fst (submitTask opItem s) = None \<and>
      poolQueued (m_pool (snd (submitTask opItem s))) = poolQueued (m_pool s) @ [opItem])"
  by (simp add: submitTask_def lock_def tryRun_def)

text \<open>
  The four cases, with a pool of capacity one.
\<close>

theorem submitTask_cases_witness:
  "submitTask (ex_op 10 False True) (ex_single\<lparr>expired := {1}\<rparr>) =
     (None, ex_single\<lparr>expired := {1}\<rparr>) \<and>
   \<not> isGood (resourceContext (op (ex_op 10 False False))) \<and>
   submitTask (ex_op 10 False False) ex_single = (Some (ex_op 10 False False), ex_single) \<and>
   submitTask (ex_op 10 False True)
       (ex_single\<lparr>m_pool := \<lparr>poolCapacity = 1, poolQueued = [ex_op 9 False True]\<rparr>\<rparr>) =
     (Some (ex_op 10 False True),
      ex_single\<lparr>m_pool := \<lparr>poolCapacity = 1, poolQueued = [ex_op 9 False True]\<rparr>\<rparr>) \<and>
   fst (submitTask (ex_op 10 False True) ex_single) = None \<and>
   poolQueued (m_pool (snd (submitTask (ex_op 10 False True) ex_single))) = [ex_op 10 False True]"
  using submitTask_cases[where opItem = "ex_op 10 False True"
          and s = "ex_single\<lparr>expired := {1}\<rparr>"]
        submitTask_cases[where opItem = "ex_op 10 False False" and s = ex_single]
        submitTask_cases[where opItem = "ex_op 10 False True"
          and s = "ex_single\<lparr>m_pool := \<lparr>poolCapacity = 1, poolQueued = [ex_op 9 False True]\<rparr>\<rparr>"]
        submitTask_cases[where opItem = "ex_op 10 False True" and s = ex_single]
  by (simp add: ex_defs ex_task_defs)

section \<open>Properties of paging\<close>

subsection \<open>The sort\<close>

lemma hd_greatest:
  "sorted_wrt (\<lambda>a b. fst b \<le> fst a) (xs :: (nat \<times> 'a) list) \<Longrightarrow> c \<in> set xs \<Longrightarrow>
     fst c \<le> fst (hd xs)"
  by (cases xs) auto

text \<open>What follows for the candidates from the promise of \<^verbatim>\<open>std::sort\<close> alone.\<close>

lemma usageOfSessions_simps:
  "set (usageOfSessions spec s) =
     (\<lambda>p. (resourceUsage (sessions s p) (MEMORY, spec), p)) ` set (m_sessions s)"
  "length (usageOfSessions spec s) = length (m_sessions s)"
  "map snd (usageOfSessions spec s) = m_sessions s"
  by (simp_all add: usageOfSessions_def comp_def)

lemma pagingCandidates_set:
  assumes "std_sort_post E spec s"
  shows "set (pagingCandidates E spec s) =
       (\<lambda>p. (resourceUsage (sessions s p) (MEMORY, spec), p)) ` set (m_sessions s)"
proof -
  from assms have "mset (pagingCandidates E spec s) = mset (usageOfSessions spec s)"
    by (simp add: std_sort_post_def)
  then have "set (pagingCandidates E spec s) = set (usageOfSessions spec s)"
    by (rule mset_eq_setD)
  then show ?thesis by (simp only: usageOfSessions_simps)
qed

lemma pagingCandidates_length:
  assumes "std_sort_post E spec s"
  shows "length (pagingCandidates E spec s) = length (m_sessions s)"
proof -
  from assms have "mset (pagingCandidates E spec s) = mset (usageOfSessions spec s)"
    by (simp add: std_sort_post_def)
  then have "length (pagingCandidates E spec s) = length (usageOfSessions spec s)"
    by (rule mset_eq_length)
  then show ?thesis by (simp only: usageOfSessions_simps)
qed

lemma pagingCandidates_distinct:
  assumes "std_sort_post E spec s"
  shows "distinct (map snd (pagingCandidates E spec s)) = distinct (m_sessions s)"
proof -
  from assms have "mset (pagingCandidates E spec s) = mset (usageOfSessions spec s)"
    by (simp add: std_sort_post_def)
  then have "mset (map snd (pagingCandidates E spec s)) = mset (map snd (usageOfSessions spec s))"
    by (simp only: mset_map)
  then have "mset (map snd (pagingCandidates E spec s)) = mset (m_sessions s)"
    by (simp only: usageOfSessions_simps)
  then show ?thesis by (rule mset_eq_imp_distinct_iff)
qed

lemma pagingCandidates_sorted:
  "std_sort_post E spec s \<Longrightarrow>
     sorted_wrt (\<lambda>a b. fst b \<le> fst a) (pagingCandidates E spec s)"
  by (simp add: std_sort_post_def)

text \<open>The two sorts of the examples keep that promise.\<close>

lemma mset_insert_desc: "mset (insert_desc x ys) = add_mset x (mset ys)"
  by (induction ys) auto

lemma mset_sort_desc: "mset (sort_desc xs) = mset xs"
  by (induction xs) (auto simp: sort_desc_def mset_insert_desc)

lemma set_insert_desc: "set (insert_desc x ys) = insert x (set ys)"
  by (induction ys) auto

lemma sorted_insert_desc:
  "sorted_wrt (\<lambda>a b. fst b \<le> fst a) ys \<Longrightarrow> sorted_wrt (\<lambda>a b. fst b \<le> fst a) (insert_desc x ys)"
  by (induction ys) (auto simp: set_insert_desc)

lemma sorted_sort_desc: "sorted_wrt (\<lambda>a b. fst b \<le> fst a) (sort_desc xs)"
  by (induction xs) (auto simp: sort_desc_def sorted_insert_desc)

lemma mset_insert_desc_after: "mset (insert_desc_after x ys) = add_mset x (mset ys)"
  by (induction ys) auto

lemma mset_sort_desc_after: "mset (sort_desc_after xs) = mset xs"
  by (induction xs) (auto simp: sort_desc_after_def mset_insert_desc_after)

lemma set_insert_desc_after: "set (insert_desc_after x ys) = insert x (set ys)"
  by (induction ys) auto

lemma sorted_insert_desc_after:
  "sorted_wrt (\<lambda>a b. fst b \<le> fst a) ys \<Longrightarrow>
     sorted_wrt (\<lambda>a b. fst b \<le> fst a) (insert_desc_after x ys)"
  by (induction ys) (auto simp: set_insert_desc_after)

lemma sorted_sort_desc_after: "sorted_wrt (\<lambda>a b. fst b \<le> fst a) (sort_desc_after xs)"
  by (induction xs) (auto simp: sort_desc_after_def sorted_insert_desc_after)

lemma std_sort_post_ex_env: "std_sort_post (ex_env verbose) spec s"
  by (simp add: std_sort_post_def pagingCandidates_def ex_env_def mset_sort_desc
        sorted_sort_desc)

lemma std_sort_post_ex_env_after: "std_sort_post ex_env_after spec s"
  by (simp add: std_sort_post_def pagingCandidates_def ex_env_after_def ex_env_def
        mset_sort_desc_after sorted_sort_desc_after)

subsection \<open>The loops\<close>

text \<open>
  The volunteer phase only changes the monitor, and only calls the callbacks of the
  sessions it visits.
\<close>

lemma makeResourceContext_frame:
  "makeResourceContext E p spec res s = (rc, s1) \<Longrightarrow>
     \<exists>w. s1 = s\<lparr>m_resMonitor := w\<rparr>"
  by (auto simp: makeResourceContext_def initializeStaging_def Let_def split: prod.splits option.splits)

lemma volunteerVictims_frame:
  "volunteerVictims E p cb target vs r s = (res, r', s', es) \<Longrightarrow>
     (\<exists>w. s' = s\<lparr>m_resMonitor := w\<rparr>) \<and> set es \<subseteq> EvVolunteer p ` snd ` set vs"
proof (induction vs arbitrary: r s res r' s' es)
  case Nil
  then show ?case by (auto intro: exI[of _ "m_resMonitor s"])
next
  case (Cons v vs)
  obtain u t where v: "v = (u, t)" by (cases v)
  obtain rc s1 where mk: "makeResourceContext E p target [(MEMORY, target) \<mapsto> u] s = (rc, s1)"
    by (cases "makeResourceContext E p target [(MEMORY, target) \<mapsto> u] s")
  from makeResourceContext_frame[OF mk] obtain w1 where s1: "s1 = s\<lparr>m_resMonitor := w1\<rparr>" ..
  show ?case
  proof (cases "isGood rc")
    case False
    with Cons.prems v mk s1 show ?thesis by auto
  next
    case True
    obtain n w where vol: "volunteer cb t rc (m_resMonitor s1) = (n, w)"
      by (cases "volunteer cb t rc (m_resMonitor s1)")
    show ?thesis
    proof (cases "r + n > 0")
      case True
      with Cons.prems v mk s1 \<open>isGood rc\<close> vol show ?thesis by auto
    next
      case False
      obtain res2 r2 s2 es2 where rec:
        "volunteerVictims E p cb target vs (r + n) (s1\<lparr>m_resMonitor := w\<rparr>) = (res2, r2, s2, es2)"
        by (cases "volunteerVictims E p cb target vs (r + n) (s1\<lparr>m_resMonitor := w\<rparr>)")
      from Cons.IH[OF rec] obtain w2 where
        s2: "s2 = s1\<lparr>m_resMonitor := w, m_resMonitor := w2\<rparr>"
        and es2: "set es2 \<subseteq> EvVolunteer p ` snd ` set vs" by auto
      from Cons.prems v mk \<open>isGood rc\<close> vol False rec
      have "s' = s2" "es = EvVolunteer p t # es2" by auto
      with s2 es2 s1 v show ?thesis by auto
    qed
  qed
qed

lemma volunteerVictims_released:
  "volunteerVictims E p cb target vs r s = (None, r', s', es) \<Longrightarrow> r' = r"
proof (induction vs arbitrary: r s r' s' es)
  case Nil
  then show ?case by simp
next
  case (Cons v vs)
  then show ?case
    by (cases v) (auto split: prod.splits if_splits)
qed

lemma volunteerLoop_frame:
  "volunteerLoop E target cands r s = (res, r', s', es) \<Longrightarrow>
     (\<exists>w. s' = s\<lparr>m_resMonitor := w\<rparr>) \<and>
     set es \<subseteq> {EvVolunteer p t | p t.
        p \<in> snd ` set (takeWhile (\<lambda>c. tickets (sessions s (snd c)) \<noteq> {}) cands)}"
proof (induction cands arbitrary: r s res r' s' es)
  case Nil
  then show ?case by (auto intro: exI[of _ "m_resMonitor s"])
next
  case (Cons c cands)
  obtain u p where c: "c = (u, p)" by (cases c)
  show ?case
  proof (cases "tickets (sessions s p) = {}")
    case True
    with Cons.prems c show ?thesis by (auto intro: exI[of _ "m_resMonitor s"])
  next
    case nonempty: False
    show ?thesis
    proof (cases "pagingCb (sessions s p)")
      case None
      with Cons.prems c nonempty
      have "volunteerLoop E target cands r s = (res, r', s', es)" by simp
      from Cons.IH[OF this] c nonempty show ?thesis by auto
    next
      case (Some cb)
      obtain res1 r1 s1 es1 where vv:
        "volunteerVictims E p cb target (sortVictim E (tickets (sessions s p)) (m_resMonitor s)) r s
           = (res1, r1, s1, es1)"
        by (cases "volunteerVictims E p cb target
                     (sortVictim E (tickets (sessions s p)) (m_resMonitor s)) r s")
      from volunteerVictims_frame[OF vv] obtain w1 where
        s1: "s1 = s\<lparr>m_resMonitor := w1\<rparr>" and
        es1: "set es1 \<subseteq> EvVolunteer p `
                snd ` set (sortVictim E (tickets (sessions s p)) (m_resMonitor s))"
        by auto
      show ?thesis
      proof (cases res1)
        case (Some b)
        with Cons.prems c nonempty \<open>pagingCb (sessions s p) = Some cb\<close> vv
        have "s' = s1" "es = es1" by auto
        with s1 es1 c nonempty show ?thesis by auto
      next
        case None
        obtain res2 r2 s2 es2 where rec:
          "volunteerLoop E target cands r1 s1 = (res2, r2, s2, es2)"
          by (cases "volunteerLoop E target cands r1 s1")
        from Cons.IH[OF rec] s1 obtain w2 where
          s2: "s2 = s\<lparr>m_resMonitor := w2\<rparr>" and
          es2: "set es2 \<subseteq> {EvVolunteer p t | p t.
                  p \<in> snd ` set (takeWhile (\<lambda>c. tickets (sessions s (snd c)) \<noteq> {}) cands)}"
          by auto
        from Cons.prems c nonempty \<open>pagingCb (sessions s p) = Some cb\<close> vv None rec
        have "s' = s2" "es = es1 @ es2" by auto
        with s2 es1 es2 c nonempty show ?thesis by (auto; blast)
      qed
    qed
  qed
qed

lemma volunteerLoop_released:
  "volunteerLoop E target cands r s = (None, r', s', es) \<Longrightarrow> r' = r"
proof (induction cands arbitrary: r s r' s' es)
  case Nil
  then show ?case by simp
next
  case (Cons c cands)
  then show ?case
    by (cases c) (auto split: prod.splits if_splits option.splits dest: volunteerVictims_released)
qed

lemma volunteerLoop_break:
  "tickets (sessions s (snd c)) = {} \<Longrightarrow>
     volunteerLoop E target (pre @ c # rest) r s = volunteerLoop E target pre r s"
proof (induction pre arbitrary: r s)
  case Nil
  then show ?case by (cases c) simp
next
  case (Cons d pre)
  obtain u p where d: "d = (u, p)" by (cases d)
  show ?case
  proof (cases "pagingCb (sessions s p)")
    case None
    with Cons d show ?thesis by simp
  next
    case (Some cb)
    obtain res1 r1 s1 es1 where vv:
      "volunteerVictims E p cb target (sortVictim E (tickets (sessions s p)) (m_resMonitor s)) r s
         = (res1, r1, s1, es1)"
      by (cases "volunteerVictims E p cb target
                   (sortVictim E (tickets (sessions s p)) (m_resMonitor s)) r s")
    from volunteerVictims_frame[OF vv] obtain w1 where s1: "s1 = s\<lparr>m_resMonitor := w1\<rparr>"
      by auto
    with Cons.prems have "tickets (sessions s1 (snd c)) = {}" by simp
    from Cons.IH[OF this] d Some vv show ?thesis
      by (simp split: option.splits)
  qed
qed

lemma forceEvictLoop_find:
  "forceEvictLoop cands s =
     (case find (\<lambda>c. pagingCb (sessions s (snd c)) \<noteq> None) cands of
        None \<Rightarrow> (None, s, [])
      | Some c \<Rightarrow>
          (Some (sessHandle (sessions s (snd c))),
           (upd_session (snd c) (\<lambda>si. si\<lparr>protectOOM := False, forceEvicted := True\<rparr>) s)
             \<lparr>m_resMonitor :=
                forceEvictedCb (the (pagingCb (sessions s (snd c)))) (m_resMonitor s)\<rparr>,
           [EvForceEvicted (snd c)]))"
  by (induction cands) (auto simp: upd_session_def Let_def)

lemma forceEvictLoop_events:
  "forceEvictLoop cands s = (r, s', es) \<Longrightarrow>
     (r = None \<and> s' = s \<and> es = []) \<or>
     (\<exists>c. find (\<lambda>c. pagingCb (sessions s (snd c)) \<noteq> None) cands = Some c \<and>
          es = [EvForceEvicted (snd c)] \<and>
          \<not> protectOOM (sessions s' (snd c)) \<and> forceEvicted (sessions s' (snd c)) \<and>
          (\<forall>q. q \<noteq> snd c \<longrightarrow> sessions s' q = sessions s q))"
  by (auto simp: forceEvictLoop_find upd_session_def split: option.splits)

lemma doPaging_events:
  assumes "doPaging E spec target s = (b, s', es)" and "e \<in> set es"
  shows "(\<exists>p t. e = EvVolunteer p t \<and>
            p \<in> snd ` set (takeWhile (\<lambda>c. tickets (sessions s (snd c)) \<noteq> {})
                             (tl (pagingCandidates E spec s)))) \<or>
         (\<exists>p. e = EvForceEvicted p \<and> \<not> protectOOM (sessions s' p) \<and>
              forceEvicted (sessions s' p)) \<or>
         (\<exists>r h. e = EvPagingLog r h)"
proof (cases "length (pagingCandidates E spec s) \<le> 1")
  case True
  with assms show ?thesis by (auto simp: doPaging_def)
next
  case False
  obtain res r s1 es1 where vl:
    "volunteerLoop E target (tl (pagingCandidates E spec s)) 0 s = (res, r, s1, es1)"
    by (cases "volunteerLoop E target (tl (pagingCandidates E spec s)) 0 s")
  from volunteerLoop_frame[OF vl] obtain w where
    s1: "s1 = s\<lparr>m_resMonitor := w\<rparr>" and
    es1: "set es1 \<subseteq> {EvVolunteer p t | p t.
            p \<in> snd ` set (takeWhile (\<lambda>c. tickets (sessions s (snd c)) \<noteq> {})
                             (tl (pagingCandidates E spec s)))}"
    by auto
  show ?thesis
  proof (cases res)
    case (Some b')
    with assms False vl have "es = es1 @ [EvPagingLog r []]"
      by (auto simp: doPaging_def Let_def)
    with assms(2) es1 show ?thesis by auto
  next
    case None
    obtain h s2 es2 where fe: "forceEvictLoop (pagingCandidates E spec s) s1 = (h, s2, es2)"
      by (cases "forceEvictLoop (pagingCandidates E spec s) s1")
    from assms(1) False vl None fe have es: "\<exists>h'. es = es1 @ es2 @ [EvPagingLog r h']" and "s' = s2"
      by (auto simp: doPaging_def Let_def split: option.splits)
    from forceEvictLoop_events[OF fe] \<open>s' = s2\<close>
    have "es2 = [] \<or> (\<exists>p. es2 = [EvForceEvicted p] \<and> \<not> protectOOM (sessions s' p) \<and>
              forceEvicted (sessions s' p))" by auto
    with es assms(2) es1 show ?thesis by (auto; blast)
  qed
qed

lemma doPaging_one_evict:
  "length (filter isForceEvictedEv (snd (snd (doPaging E spec target s)))) \<le> 1"
proof (cases "length (pagingCandidates E spec s) \<le> 1")
  case True
  then show ?thesis by (simp add: doPaging_def)
next
  case False
  obtain res r s1 es1 where vl:
    "volunteerLoop E target (tl (pagingCandidates E spec s)) 0 s = (res, r, s1, es1)"
    by (cases "volunteerLoop E target (tl (pagingCandidates E spec s)) 0 s")
  from volunteerLoop_frame[OF vl] have "\<forall>e \<in> set es1. \<not> isForceEvictedEv e" by auto
  then have es1: "filter isForceEvictedEv es1 = []" by (simp add: filter_empty_conv)
  obtain h s2 es2 where fe: "forceEvictLoop (pagingCandidates E spec s) s1 = (h, s2, es2)"
    by (cases "forceEvictLoop (pagingCandidates E spec s) s1")
  from forceEvictLoop_events[OF fe] have es2: "length (filter isForceEvictedEv es2) \<le> 1"
    by auto
  from False vl fe es1 es2 show ?thesis
    by (auto simp: doPaging_def Let_def split: option.splits)
qed

lemma doPaging_logs:
  "\<exists>e \<in> set (snd (snd (doPaging E spec target s))). isPagingLogEv e"
  by (auto simp: doPaging_def Let_def split: prod.splits option.splits)

lemma doPaging_no_wait:
  "e \<in> set (snd (snd (doPaging E spec target s))) \<Longrightarrow> \<not> isWaitEv e"
  using doPaging_events[of E spec target s "fst (doPaging E spec target s)"
          "fst (snd (doPaging E spec target s))" "snd (snd (doPaging E spec target s))" e]
  by auto

subsection \<open>The claims\<close>

text \<open>
  Claim C3. When \<open>doPaging\<close> runs with at least two live sessions (each in the live
  list once), then whatever order \<^verbatim>\<open>std::sort\<close> gives to candidates of equal usage, the
  first candidate after sorting is a live session of greatest memory usage on the
  source device, and its \<open>volunteer\<close> callback is not called.
\<close>

theorem largest_consumer_preserved:
  assumes "std_sort_post E spec s"
      and "distinct (m_sessions s)" and "2 \<le> length (m_sessions s)"
  shows "snd (hd (pagingCandidates E spec s)) \<in> set (m_sessions s) \<and>
         (\<forall>p \<in> set (m_sessions s).
            resourceUsage (sessions s p) (MEMORY, spec)
              \<le> resourceUsage (sessions s (snd (hd (pagingCandidates E spec s)))) (MEMORY, spec)) \<and>
         (\<forall>t. EvVolunteer (snd (hd (pagingCandidates E spec s))) t
                \<notin> set (snd (snd (doPaging E spec target s))))"
proof -
  let ?f = "\<lambda>p. (resourceUsage (sessions s p) (MEMORY, spec), p)"
  let ?cands = "pagingCandidates E spec s"
  from assms(3) obtain c rest where cands: "?cands = c # rest"
    using pagingCandidates_length[OF assms(1)] by (cases ?cands) auto
  then have "c \<in> set ?cands" by simp
  then obtain p0 where p0: "p0 \<in> set (m_sessions s)" "c = ?f p0"
    by (auto simp: pagingCandidates_set[OF assms(1)])
  have great: "\<forall>p \<in> set (m_sessions s). fst (?f p) \<le> fst c"
  proof
    fix p assume "p \<in> set (m_sessions s)"
    then have "?f p \<in> set ?cands" by (simp add: pagingCandidates_set[OF assms(1)])
    from hd_greatest[OF pagingCandidates_sorted[OF assms(1)] this] cands
    show "fst (?f p) \<le> fst c" by simp
  qed
  from assms(2) cands have notin: "snd c \<notin> snd ` set rest"
    using pagingCandidates_distinct[OF assms(1)] by auto
  have novol: "\<forall>t. EvVolunteer (snd c) t \<notin> set (snd (snd (doPaging E spec target s)))"
  proof (intro allI notI)
    fix t assume mem: "EvVolunteer (snd c) t \<in> set (snd (snd (doPaging E spec target s)))"
    obtain b s' es where dp: "doPaging E spec target s = (b, s', es)"
      by (cases "doPaging E spec target s")
    from doPaging_events[OF dp] mem dp
    have "snd c \<in> snd ` set (takeWhile (\<lambda>c. tickets (sessions s (snd c)) \<noteq> {}) (tl ?cands))"
      by auto
    then have "snd c \<in> snd ` set (tl ?cands)" by (auto dest: set_takeWhileD)
    with notin cands show False by simp
  qed
  from p0 great novol cands show ?thesis by simp
qed

text \<open>
  With A (900 bytes) and B (100 bytes) live, listed as B, A: the first candidate is
  A, and A is not asked. With A and B of equal usage the sort decides: one sort puts
  B first, so that A is asked and B is not; the other puts A first, so that B is asked
  and A is not.
\<close>

theorem largest_consumer_preserved_witness:
  "std_sort_post (ex_env False) GPU0 (ex_two (Some (ex_cb 0)) (Some (ex_cb 64)) 1000) \<and>
   distinct (m_sessions (ex_two (Some (ex_cb 0)) (Some (ex_cb 64)) 1000)) \<and>
   2 \<le> length (m_sessions (ex_two (Some (ex_cb 0)) (Some (ex_cb 64)) 1000)) \<and>
   snd (hd (pagingCandidates (ex_env False) GPU0 (ex_two (Some (ex_cb 0)) (Some (ex_cb 64)) 1000))) = 1 \<and>
   snd (snd (doPaging (ex_env False) GPU0 CPU0 (ex_two (Some (ex_cb 0)) (Some (ex_cb 64)) 1000)))
     = [EvVolunteer 2 2, EvPagingLog 64 []] \<and>
   EvVolunteer 1 1 \<notin> set (snd (snd (doPaging (ex_env False) GPU0 CPU0
                                        (ex_two (Some (ex_cb 0)) (Some (ex_cb 64)) 1000)))) \<and>
   std_sort_post (ex_env False) GPU0 ex_tie \<and> std_sort_post ex_env_after GPU0 ex_tie \<and>
   pagingCandidates (ex_env False) GPU0 ex_tie = [(500, 2), (500, 1)] \<and>
   snd (snd (doPaging (ex_env False) GPU0 CPU0 ex_tie))
     = [EvVolunteer 1 1, EvForceEvicted 2, EvPagingLog 0 ''B''] \<and>
   EvVolunteer 2 2 \<notin> set (snd (snd (doPaging (ex_env False) GPU0 CPU0 ex_tie))) \<and>
   pagingCandidates ex_env_after GPU0 ex_tie = [(500, 1), (500, 2)] \<and>
   snd (snd (doPaging ex_env_after GPU0 CPU0 ex_tie))
     = [EvVolunteer 2 2, EvForceEvicted 1, EvPagingLog 0 ''A''] \<and>
   EvVolunteer 1 1 \<notin> set (snd (snd (doPaging ex_env_after GPU0 CPU0 ex_tie)))"
  using largest_consumer_preserved[where s = "ex_two (Some (ex_cb 0)) (Some (ex_cb 64)) 1000"
          and spec = GPU0 and E = "ex_env False" and target = CPU0,
          OF std_sort_post_ex_env]
        largest_consumer_preserved[where s = ex_tie and spec = GPU0 and E = "ex_env False"
          and target = CPU0, OF std_sort_post_ex_env]
        largest_consumer_preserved[where s = ex_tie and spec = GPU0 and E = ex_env_after
          and target = CPU0, OF std_sort_post_ex_env_after]
        std_sort_post_ex_env[of False GPU0 "ex_two (Some (ex_cb 0)) (Some (ex_cb 64)) 1000"]
        std_sort_post_ex_env[of False GPU0 ex_tie] std_sort_post_ex_env_after[of GPU0 ex_tie]
  by (simp add: ex_defs)

text \<open>
  Claim C1, as the code has it. When the volunteer loop reaches a session whose
  ticket set is empty it stops (\<^verbatim>\<open>break\<close>): the loop behaves as if that session and
  all later candidates were absent. So in \<open>doPaging\<close> only the candidates between the
  largest consumer and the first ticket-less candidate can be asked to volunteer.
\<close>

theorem volunteer_loop_breaks:
  "(tickets (sessions s (snd c)) = {} \<longrightarrow>
      volunteerLoop E target (pre @ c # rest) released s = volunteerLoop E target pre released s) \<and>
   (EvVolunteer p t \<in> set (snd (snd (doPaging E spec target s))) \<longrightarrow>
      p \<in> snd ` set (takeWhile (\<lambda>c. tickets (sessions s (snd c)) \<noteq> {})
                       (tl (pagingCandidates E spec s))))"
proof (intro conjI impI)
  assume "tickets (sessions s (snd c)) = {}"
  then show "volunteerLoop E target (pre @ c # rest) released s
               = volunteerLoop E target pre released s"
    by (rule volunteerLoop_break)
next
  assume mem: "EvVolunteer p t \<in> set (snd (snd (doPaging E spec target s)))"
  obtain b s' es where dp: "doPaging E spec target s = (b, s', es)"
    by (cases "doPaging E spec target s")
  from doPaging_events[OF dp] mem dp
  show "p \<in> snd ` set (takeWhile (\<lambda>c. tickets (sessions s (snd c)) \<noteq> {})
                       (tl (pagingCandidates E spec s)))"
    by auto
qed

text \<open>
  The loop does not move on to the next candidate. The usages differ, so every sort
  orders the candidates A, B, C. B owns no ticket, C comes after B with a ticket and a
  callback that would release memory, and C is never asked; the loop over B and C
  differs from the loop over C alone.
\<close>

theorem volunteer_loop_continue_counterexample:
  "pagingCandidates (ex_env False) GPU0 ex_break = [(900, 1), (200, 2), (100, 3)] \<and>
   tickets (sessions ex_break 2) = {} \<and>
   tickets (sessions ex_break 3) \<noteq> {} \<and>
   pagingCb (sessions ex_break 3) \<noteq> None \<and>
   snd (snd (doPaging (ex_env False) GPU0 CPU0 ex_break)) =
     [EvForceEvicted 1, EvPagingLog 0 ''A''] \<and>
   snd (snd (snd (volunteerLoop (ex_env False) CPU0 [(100, 3)] 0 ex_break))) = [EvVolunteer 3 3] \<and>
   volunteerLoop (ex_env False) CPU0 ((200, 2) # [(100, 3)]) 0 ex_break
     \<noteq> volunteerLoop (ex_env False) CPU0 [(100, 3)] 0 ex_break"
  by (simp add: ex_defs)

text \<open>
  The loop over A, B, C asks A, which releases nothing, reaches B, which owns no
  ticket, and ends there: C is not asked, though alone it would be and would release
  64 bytes. In \<open>doPaging\<close> on four sessions, sorted as A, D, B, C, only D stands
  between the largest consumer and the ticket-less B: D is asked, C is not, and A is
  force-evicted.
\<close>

theorem volunteer_loop_breaks_witness:
  "tickets (sessions ex_break (snd (200 :: nat, 2 :: nat))) = {} \<and>
   volunteerLoop (ex_env False) CPU0 ([(900, 1)] @ (200, 2) # [(100, 3)]) 0 ex_break =
     (None, 0, ex_break\<lparr>m_resMonitor := 950\<rparr>, [EvVolunteer 1 1]) \<and>
   volunteerLoop (ex_env False) CPU0 [(900, 1)] 0 ex_break =
     (None, 0, ex_break\<lparr>m_resMonitor := 950\<rparr>, [EvVolunteer 1 1]) \<and>
   volunteerLoop (ex_env False) CPU0 [(900, 1), (100, 3)] 0 ex_break =
     (Some True, 64, ex_break\<lparr>m_resMonitor := 900\<rparr>, [EvVolunteer 1 1, EvVolunteer 3 3]) \<and>
   pagingCandidates (ex_env False) GPU0 ex_break4 = [(900, 1), (500, 4), (200, 2), (100, 3)] \<and>
   tickets (sessions ex_break4 2) = {} \<and>
   tickets (sessions ex_break4 3) = {3} \<and>
   takeWhile (\<lambda>c. tickets (sessions ex_break4 (snd c)) \<noteq> {})
     (tl (pagingCandidates (ex_env False) GPU0 ex_break4)) = [(500, 4)] \<and>
   snd (snd (doPaging (ex_env False) GPU0 CPU0 ex_break4)) =
     [EvVolunteer 4 2, EvForceEvicted 1, EvPagingLog 0 ''A''] \<and>
   EvVolunteer 4 2 \<in> set (snd (snd (doPaging (ex_env False) GPU0 CPU0 ex_break4))) \<and>
   4 \<in> snd ` set (takeWhile (\<lambda>c. tickets (sessions ex_break4 (snd c)) \<noteq> {})
                      (tl (pagingCandidates (ex_env False) GPU0 ex_break4)))"
  using volunteer_loop_breaks
          [where s = ex_break and c = "(200, 2)" and E = "ex_env False" and target = CPU0
             and pre = "[(900, 1)]" and rest = "[(100, 3)]" and released = 0]
        volunteer_loop_breaks
          [where s = ex_break4 and E = "ex_env False"
             and target = CPU0 and spec = GPU0 and p = 4 and t = 2]
  by (simp add: ex_defs)

text \<open>
  Claim C4. After the two early returns of \<open>doPaging\<close> (at most one candidate; a
  CPU pre-allocation that fails), when the volunteer phase ends with no session
  having volunteered any memory, nothing was released and the first session in
  candidates order, as \<^verbatim>\<open>std::sort\<close> has left it, that has
  a paging callback is force-evicted: \<open>protectOOM\<close> becomes false, \<open>forceEvicted\<close>
  true, its \<open>forceEvicted()\<close> callback is called, no other session changes and the
  result is true; without any paging callback the result is false. In every call at
  most one session is force-evicted.
\<close>

theorem force_evict_after_volunteer_phase:
  "(1 < length (pagingCandidates E spec s) \<and>
    volunteerLoop E target (tl (pagingCandidates E spec s)) 0 s = (None, released, sV, es) \<longrightarrow>
      released = 0 \<and>
      (\<forall>c. find (\<lambda>c. pagingCb (sessions s (snd c)) \<noteq> None) (pagingCandidates E spec s) = Some c \<longrightarrow>
         fst (doPaging E spec target s) = True \<and>
         snd (snd (doPaging E spec target s)) =
           es @ [EvForceEvicted (snd c), EvPagingLog 0 (sessHandle (sessions s (snd c)))] \<and>
         \<not> protectOOM (sessions (fst (snd (doPaging E spec target s))) (snd c)) \<and>
         forceEvicted (sessions (fst (snd (doPaging E spec target s))) (snd c)) \<and>
         (\<forall>q. q \<noteq> snd c \<longrightarrow>
            sessions (fst (snd (doPaging E spec target s))) q = sessions s q)) \<and>
      (find (\<lambda>c. pagingCb (sessions s (snd c)) \<noteq> None) (pagingCandidates E spec s) = None \<longrightarrow>
         doPaging E spec target s = (False, sV, es @ [EvPagingLog 0 []]))) \<and>
   length (filter isForceEvictedEv (snd (snd (doPaging E spec target s)))) \<le> 1"
proof (intro conjI impI)
  show "length (filter isForceEvictedEv (snd (snd (doPaging E spec target s)))) \<le> 1"
    by (rule doPaging_one_evict)
next
  assume a: "1 < length (pagingCandidates E spec s) \<and>
    volunteerLoop E target (tl (pagingCandidates E spec s)) 0 s = (None, released, sV, es)"
  then have vl: "volunteerLoop E target (tl (pagingCandidates E spec s)) 0 s = (None, released, sV, es)"
    and len: "\<not> length (pagingCandidates E spec s) \<le> 1" by auto
  from volunteerLoop_released[OF vl] show rel: "released = 0" .
  from volunteerLoop_frame[OF vl] obtain w where sV: "sV = s\<lparr>m_resMonitor := w\<rparr>" by auto
  then have same: "sessions sV = sessions s" by simp
  show "\<forall>c. find (\<lambda>c. pagingCb (sessions s (snd c)) \<noteq> None) (pagingCandidates E spec s) = Some c \<longrightarrow>
         fst (doPaging E spec target s) = True \<and>
         snd (snd (doPaging E spec target s)) =
           es @ [EvForceEvicted (snd c), EvPagingLog 0 (sessHandle (sessions s (snd c)))] \<and>
         \<not> protectOOM (sessions (fst (snd (doPaging E spec target s))) (snd c)) \<and>
         forceEvicted (sessions (fst (snd (doPaging E spec target s))) (snd c)) \<and>
         (\<forall>q. q \<noteq> snd c \<longrightarrow>
            sessions (fst (snd (doPaging E spec target s))) q = sessions s q)"
    using len vl rel same
    by (auto simp: doPaging_def Let_def forceEvictLoop_find upd_session_def)
  assume "find (\<lambda>c. pagingCb (sessions s (snd c)) \<noteq> None) (pagingCandidates E spec s) = None"
  then show "doPaging E spec target s = (False, sV, es @ [EvPagingLog 0 []])"
    using len vl rel same
    by (auto simp: doPaging_def Let_def forceEvictLoop_find)
qed

text \<open>
  B volunteers nothing and is force-evicted, A having no callback; with no callback
  at all the result is false; and of two sessions of equal usage, both with a
  callback, the one that the sort has put first is force-evicted.
\<close>

theorem force_evict_after_volunteer_phase_witness:
  "1 < length (pagingCandidates (ex_env False) GPU0 (ex_two None (Some (ex_cb 0)) 1000)) \<and>
   find (\<lambda>c. pagingCb (sessions (ex_two None (Some (ex_cb 0)) 1000) (snd c)) \<noteq> None)
     (pagingCandidates (ex_env False) GPU0 (ex_two None (Some (ex_cb 0)) 1000)) = Some (100, 2) \<and>
   fst (doPaging (ex_env False) GPU0 CPU0 (ex_two None (Some (ex_cb 0)) 1000)) = True \<and>
   snd (snd (doPaging (ex_env False) GPU0 CPU0 (ex_two None (Some (ex_cb 0)) 1000))) =
     [EvVolunteer 2 2, EvForceEvicted 2, EvPagingLog 0 ''B''] \<and>
   forceEvicted (sessions (fst (snd (doPaging (ex_env False) GPU0 CPU0
                                       (ex_two None (Some (ex_cb 0)) 1000)))) 2) \<and>
   find (\<lambda>c. pagingCb (sessions (ex_two None None 1000) (snd c)) \<noteq> None)
     (pagingCandidates (ex_env False) GPU0 (ex_two None None 1000)) = None \<and>
   doPaging (ex_env False) GPU0 CPU0 (ex_two None None 1000) =
     (False, ex_two None None 1000, [EvPagingLog 0 []]) \<and>
   find (\<lambda>c. pagingCb (sessions ex_tie (snd c)) \<noteq> None)
     (pagingCandidates (ex_env False) GPU0 ex_tie) = Some (500, 2) \<and>
   snd (snd (doPaging (ex_env False) GPU0 CPU0 ex_tie)) =
     [EvVolunteer 1 1, EvForceEvicted 2, EvPagingLog 0 ''B''] \<and>
   find (\<lambda>c. pagingCb (sessions ex_tie (snd c)) \<noteq> None)
     (pagingCandidates ex_env_after GPU0 ex_tie) = Some (500, 1) \<and>
   snd (snd (doPaging ex_env_after GPU0 CPU0 ex_tie)) =
     [EvVolunteer 2 2, EvForceEvicted 1, EvPagingLog 0 ''A'']"
  using force_evict_after_volunteer_phase
          [where s = "ex_two None (Some (ex_cb 0)) 1000" and spec = GPU0 and E = "ex_env False"
             and target = CPU0 and released = 0
             and sV = "(ex_two None (Some (ex_cb 0)) 1000)\<lparr>m_resMonitor := 950\<rparr>"
             and es = "[EvVolunteer 2 2]"]
        force_evict_after_volunteer_phase
          [where s = "ex_two None None 1000" and spec = GPU0 and E = "ex_env False"
             and target = CPU0 and released = 0 and sV = "ex_two None None 1000" and es = "[]"]
        force_evict_after_volunteer_phase
          [where s = ex_tie and spec = GPU0 and E = "ex_env False" and target = CPU0
             and released = 0 and sV = "ex_tie\<lparr>m_resMonitor := 950\<rparr>"
             and es = "[EvVolunteer 1 1]"]
        force_evict_after_volunteer_phase
          [where s = ex_tie and spec = GPU0 and E = ex_env_after and target = CPU0
             and released = 0 and sV = "ex_tie\<lparr>m_resMonitor := 950\<rparr>"
             and es = "[EvVolunteer 2 2]"]
  by (simp add: ex_defs)

section \<open>Properties of the scheduling loop\<close>

lemma filter_isCancelOf_map:
  "filter (isCancelOf q) (map (\<lambda>opItem. EvCancel x (opId (op opItem))) l) =
     (if q = x then map (\<lambda>opItem. EvCancel x (opId (op opItem))) l else [])"
  by (induction l) auto

text \<open>Destroying operations touches ticket sets and the monitor, nothing else.\<close>

lemma destroyOperations_fields:
  "queue (sessions (destroyOperations E os s) p) = queue (sessions s p)"
  "bgQueue (sessions (destroyOperations E os s) p) = bgQueue (sessions s p)"
  "protectOOM (sessions (destroyOperations E os s) p) = protectOOM (sessions s p)"
  "forceEvicted (sessions (destroyOperations E os s) p) = forceEvicted (sessions s p)"
  "m_sessions (destroyOperations E os s) = m_sessions s"
  by (induction os arbitrary: s)
     (simp_all add: destroyResourceContext_def releaseStaging_other_fields)

lemma prepareSession_other:
  "q \<noteq> x \<Longrightarrow> queue (sessions (fst (snd (prepareSession E en x t s))) q) = queue (sessions s q)"
  "q \<noteq> x \<Longrightarrow>
     bgQueue (sessions (fst (snd (prepareSession E en x t s))) q) = bgQueue (sessions s q)"
  "q \<noteq> x \<Longrightarrow>
     protectOOM (sessions (fst (snd (prepareSession E en x t s))) q) = protectOOM (sessions s q)"
  by (simp_all add: prepareSession_def Let_def upd_session_def split_beta destroyOperations_fields)

lemma prepareSession_live:
  "m_sessions (fst (snd (prepareSession E en x t s))) = m_sessions s"
  by (simp add: prepareSession_def Let_def upd_session_def split_beta destroyOperations_fields)

lemma prepareSession_forceEvicted:
  "forceEvicted (sessions (fst (snd (prepareSession E en x t s))) q) = forceEvicted (sessions s q)"
  by (simp add: prepareSession_def Let_def upd_session_def split_beta destroyOperations_fields)

lemma prepareSession_self:
  "queue (sessions (fst (snd (prepareSession E en x t s))) x) = []"
  "bgQueue (sessions (fst (snd (prepareSession E en x t s))) x) =
     (if forceEvicted (sessions s x) then []
      else bgQueue (sessions s x) @ queue (sessions s x))"
  "protectOOM (sessions (fst (snd (prepareSession E en x t s))) x) = en"
  by (simp_all add: prepareSession_def Let_def upd_session_def split_beta destroyOperations_fields)

lemma prepareSession_events:
  "snd (snd (prepareSession E en x t s)) =
     (if forceEvicted (sessions s x)
      then map (\<lambda>opItem. EvCancel x (opId (op opItem)))
             (bgQueue (sessions s x) @ queue (sessions s x))
      else [])"
  by (simp add: prepareSession_def Let_def upd_session_def split_beta)

lemma prepareSessions_Cons:
  "prepareSessions E en (x # xs) t s =
     (fst (prepareSessions E en xs (fst (prepareSession E en x t s))
             (fst (snd (prepareSession E en x t s)))),
      fst (snd (prepareSessions E en xs (fst (prepareSession E en x t s))
             (fst (snd (prepareSession E en x t s))))),
      snd (snd (prepareSession E en x t s)) @
      snd (snd (prepareSessions E en xs (fst (prepareSession E en x t s))
             (fst (snd (prepareSession E en x t s))))))"
  by (simp add: split_beta)

lemma prepareSessions_live:
  "m_sessions (fst (snd (prepareSessions E en xs t s))) = m_sessions s"
  by (induction xs arbitrary: t s) (simp_all del: prepareSessions.simps(2) add: prepareSessions_Cons prepareSession_live)

lemma prepareSessions_forceEvicted:
  "forceEvicted (sessions (fst (snd (prepareSessions E en xs t s))) q) = forceEvicted (sessions s q)"
  by (induction xs arbitrary: t s) (simp_all del: prepareSessions.simps(2) add: prepareSessions_Cons prepareSession_forceEvicted)

lemma prepareSessions_other:
  "q \<notin> set xs \<Longrightarrow>
     queue (sessions (fst (snd (prepareSessions E en xs t s))) q) = queue (sessions s q)"
  "q \<notin> set xs \<Longrightarrow>
     bgQueue (sessions (fst (snd (prepareSessions E en xs t s))) q) = bgQueue (sessions s q)"
  "q \<notin> set xs \<Longrightarrow>
     protectOOM (sessions (fst (snd (prepareSessions E en xs t s))) q) = protectOOM (sessions s q)"
  by (induction xs arbitrary: t s)
     (simp_all del: prepareSessions.simps(2) add: prepareSessions_Cons prepareSession_other)

lemma prepareSessions_protectOOM:
  "q \<in> set xs \<Longrightarrow> protectOOM (sessions (fst (snd (prepareSessions E en xs t s))) q) = en"
proof (induction xs arbitrary: t s)
  case Nil
  then show ?case by simp
next
  case (Cons x xs)
  show ?case
  proof (cases "q \<in> set xs")
    case True
    then show ?thesis by (simp del: prepareSessions.simps(2) add: prepareSessions_Cons Cons.IH)
  next
    case False
    with Cons.prems have "q = x" by simp
    with False show ?thesis
      by (simp del: prepareSessions.simps(2) add: prepareSessions_Cons prepareSessions_other prepareSession_self)
  qed
qed

lemma prepareSessions_queue:
  "q \<in> set xs \<Longrightarrow> queue (sessions (fst (snd (prepareSessions E en xs t s))) q) = []"
proof (induction xs arbitrary: t s)
  case Nil
  then show ?case by simp
next
  case (Cons x xs)
  show ?case
  proof (cases "q \<in> set xs")
    case True
    then show ?thesis by (simp del: prepareSessions.simps(2) add: prepareSessions_Cons Cons.IH)
  next
    case False
    with Cons.prems have "q = x" by simp
    with False show ?thesis
      by (simp del: prepareSessions.simps(2) add: prepareSessions_Cons prepareSessions_other prepareSession_self)
  qed
qed

lemma prepareSessions_bgQueue:
  "q \<in> set xs \<Longrightarrow> forceEvicted (sessions s q) \<Longrightarrow>
     bgQueue (sessions (fst (snd (prepareSessions E en xs t s))) q) = []"
proof (induction xs arbitrary: t s)
  case Nil
  then show ?case by simp
next
  case (Cons x xs)
  show ?case
  proof (cases "q \<in> set xs")
    case True
    with Cons.prems(2) show ?thesis
      by (simp del: prepareSessions.simps(2) add: prepareSessions_Cons Cons.IH prepareSession_forceEvicted)
  next
    case False
    with Cons.prems have "q = x" by simp
    with False Cons.prems(2) show ?thesis
      by (simp del: prepareSessions.simps(2) add: prepareSessions_Cons prepareSessions_other prepareSession_self)
  qed
qed

lemma prepareSessions_cancels:
  "filter (isCancelOf q) (snd (snd (prepareSessions E en xs t s))) =
     (if q \<in> set xs \<and> forceEvicted (sessions s q)
      then map (\<lambda>opItem. EvCancel q (opId (op opItem)))
             (bgQueue (sessions s q) @ queue (sessions s q))
      else [])"
proof (induction xs arbitrary: t s)
  case Nil
  then show ?case by simp
next
  case (Cons x xs)
  let ?s1 = "fst (snd (prepareSession E en x t s))"
  let ?t1 = "fst (prepareSession E en x t s)"
  have fe: "forceEvicted (sessions ?s1 q) = forceEvicted (sessions s q)"
    by (rule prepareSession_forceEvicted)
  show ?case
  proof (cases "q = x")
    case True
    have "queue (sessions ?s1 x) = []" by (rule prepareSession_self)
    moreover have "forceEvicted (sessions s x) \<Longrightarrow> bgQueue (sessions ?s1 x) = []"
      by (simp add: prepareSession_self)
    ultimately show ?thesis using fe[unfolded True] unfolding True
      by (simp del: prepareSessions.simps(2)
            add: prepareSessions_Cons Cons.IH[unfolded True] prepareSession_events
              filter_isCancelOf_map)
  next
    case False
    then have "bgQueue (sessions ?s1 q) = bgQueue (sessions s q)"
      and "queue (sessions ?s1 q) = queue (sessions s q)"
      by (simp_all add: prepareSession_other)
    with False fe show ?thesis
      by (simp del: prepareSessions.simps(2) add: prepareSessions_Cons Cons.IH prepareSession_events filter_isCancelOf_map)
  qed
qed

lemma prepareSessions_only_cancels:
  "e \<in> set (snd (snd (prepareSessions E en xs t s))) \<Longrightarrow> isCancelEv e"
  by (induction xs arbitrary: t s)
     (auto simp del: prepareSessions.simps(2) simp: prepareSessions_Cons prepareSession_events split: if_splits)

lemma ingestSessions_sessions:
  "sessions (snd (ingestSessions s)) = sessions s"
  "m_sessions (snd (ingestSessions s)) =
     filter (\<lambda>x. x \<notin> m_deletedSessions s) (m_sessions s) @ m_newSessions s"
  by (simp_all add: ingestSessions_def Let_def)

lemma iterBegin_unfold:
  "iterBegin E s =
     (fst (ingestSessions s),
      prepareSessions E (1 < length (m_sessions (snd (ingestSessions s))))
        (m_sessions (snd (ingestSessions s))) 0 (snd (ingestSessions s)))"
  by (simp add: iterBegin_def split_beta)

text \<open>
  Claim C8. For a live session whose \<open>forceEvicted\<close> flag is set, the next
  iteration calls \<open>cancel()\<close> once on each operation of its \<open>bgQueue\<close>, the
  operations just spliced in from the front queue included, in queue order, and leaves
  both queues empty before the policy is consulted, so none of them can be
  dispatched.
\<close>

theorem forceEvicted_session_is_cancelled:
  assumes "iterBegin E s = (changeset, totalRemainingCount, sP, es)"
      and "p \<in> set (m_sessions sP)"
      and "forceEvicted (sessions s p)"
  shows "filter (isCancelOf p) es =
           map (\<lambda>opItem. EvCancel p (opId (op opItem)))
             (bgQueue (sessions s p) @ queue (sessions s p)) \<and>
         bgQueue (sessions sP p) = [] \<and> queue (sessions sP p) = [] \<and>
         forceEvicted (sessions sP p)"
proof -
  let ?s1 = "snd (ingestSessions s)"
  let ?en = "1 < length (m_sessions ?s1)"
  from assms(1) have sP: "sP = fst (snd (prepareSessions E ?en (m_sessions ?s1) 0 ?s1))"
    and es: "es = snd (snd (prepareSessions E ?en (m_sessions ?s1) 0 ?s1))"
    by (simp_all add: iterBegin_unfold)
  from assms(2) sP have live: "p \<in> set (m_sessions ?s1)"
    by (simp add: prepareSessions_live)
  from assms(3) have fe: "forceEvicted (sessions ?s1 p)"
    by (simp add: ingestSessions_sessions)
  from live fe show ?thesis
    unfolding sP es
    by (simp add: prepareSessions_cancels prepareSessions_bgQueue prepareSessions_queue
          prepareSessions_forceEvicted ingestSessions_sessions(1))
qed

text \<open>
  Session 1 is force-evicted with one operation in each queue; session 2 keeps its
  operation.
\<close>

theorem forceEvicted_session_is_cancelled_witness:
  "forceEvicted (sessions ex_queued 1) \<and>
   1 \<in> set (m_sessions (fst (snd (snd (iterBegin (ex_env False) ex_queued))))) \<and>
   filter (isCancelOf 1) (snd (snd (snd (iterBegin (ex_env False) ex_queued)))) = [EvCancel 1 10, EvCancel 1 11] \<and>
   snd (snd (snd (iterBegin (ex_env False) ex_queued))) = [EvCancel 1 10, EvCancel 1 11] \<and>
   bgQueue (sessions (fst (snd (snd (iterBegin (ex_env False) ex_queued)))) 1) = [] \<and>
   queue (sessions (fst (snd (snd (iterBegin (ex_env False) ex_queued)))) 1) = [] \<and>
   length (bgQueue (sessions (fst (snd (snd (iterBegin (ex_env False) ex_queued)))) 2)) = 1"
proof -
  have a: "iterBegin (ex_env False) ex_queued =
      (fst (iterBegin (ex_env False) ex_queued), fst (snd (iterBegin (ex_env False) ex_queued)),
       fst (snd (snd (iterBegin (ex_env False) ex_queued))), snd (snd (snd (iterBegin (ex_env False) ex_queued))))"
    by simp
  show ?thesis
    using forceEvicted_session_is_cancelled[OF a, of 1]
    by (simp add: ex_defs ex_iter_defs ex_task_defs)
qed

text \<open>
  Claim C9. Every iteration sets \<open>protectOOM\<close> of every live session, force-evicted
  or not, to "more than one session is live", and leaves \<open>forceEvicted\<close> as it is. So
  the \<open>protectOOM = False\<close> that the force-evict path of \<open>doPaging\<close> has set is true
  again after the start of the next iteration when more than one session is live.
\<close>

theorem protectOOM_reset_every_iteration:
  assumes "iterBegin E s = (changeset, totalRemainingCount, sP, es)"
  shows "(\<forall>p \<in> set (m_sessions sP).
            protectOOM (sessions sP p) = (1 < length (m_sessions sP)) \<and>
            forceEvicted (sessions sP p) = forceEvicted (sessions s p)) \<and>
         (doPaging Ep spec target sB = (b, s, esB) \<and> EvForceEvicted p \<in> set esB \<and>
          p \<in> set (m_sessions sP) \<and> 1 < length (m_sessions sP) \<longrightarrow>
            \<not> protectOOM (sessions s p) \<and> forceEvicted (sessions s p) \<and>
            protectOOM (sessions sP p) \<and> forceEvicted (sessions sP p))"
proof -
  let ?s1 = "snd (ingestSessions s)"
  let ?en = "1 < length (m_sessions ?s1)"
  from assms(1) have sP: "sP = fst (snd (prepareSessions E ?en (m_sessions ?s1) 0 ?s1))"
    by (simp_all add: iterBegin_unfold)
  have live: "m_sessions sP = m_sessions ?s1" by (simp add: sP prepareSessions_live)
  have first: "\<forall>p \<in> set (m_sessions sP).
            protectOOM (sessions sP p) = (1 < length (m_sessions sP)) \<and>
            forceEvicted (sessions sP p) = forceEvicted (sessions s p)"
    unfolding live unfolding sP
    by (simp add: prepareSessions_protectOOM prepareSessions_forceEvicted
          ingestSessions_sessions(1))
  have second: "doPaging Ep spec target sB = (b, s, esB) \<and> EvForceEvicted p \<in> set esB \<and>
          p \<in> set (m_sessions sP) \<and> 1 < length (m_sessions sP) \<longrightarrow>
            \<not> protectOOM (sessions s p) \<and> forceEvicted (sessions s p) \<and>
            protectOOM (sessions sP p) \<and> forceEvicted (sessions sP p)"
  proof
    assume a: "doPaging Ep spec target sB = (b, s, esB) \<and> EvForceEvicted p \<in> set esB \<and>
          p \<in> set (m_sessions sP) \<and> 1 < length (m_sessions sP)"
    then have dp: "doPaging Ep spec target sB = (b, s, esB)" and mem: "EvForceEvicted p \<in> set esB"
      by auto
    from doPaging_events[OF dp mem]
    have "\<not> protectOOM (sessions s p) \<and> forceEvicted (sessions s p)" by auto
    with first a show "\<not> protectOOM (sessions s p) \<and> forceEvicted (sessions s p) \<and>
            protectOOM (sessions sP p) \<and> forceEvicted (sessions sP p)" by auto
  qed
  from first second show ?thesis by (rule conjI)
qed

text \<open>
  B is force-evicted by \<open>doPaging\<close>; at the start of the next iteration its
  \<open>protectOOM\<close> is true again.
\<close>

theorem protectOOM_reset_every_iteration_witness:
  "EvForceEvicted 2 \<in> set (snd (snd (doPaging (ex_env False) GPU0 CPU0
                                      (ex_two None (Some (ex_cb 0)) 1000)))) \<and>
   \<not> protectOOM (sessions (fst (snd (doPaging (ex_env False) GPU0 CPU0
                                        (ex_two None (Some (ex_cb 0)) 1000)))) 2) \<and>
   m_sessions (fst (snd (snd (iterBegin (ex_env False) (fst (snd (doPaging (ex_env False) GPU0 CPU0
                                        (ex_two None (Some (ex_cb 0)) 1000)))))))) = [2, 1] \<and>
   protectOOM (sessions (fst (snd (snd (iterBegin (ex_env False) (fst (snd (doPaging (ex_env False) GPU0 CPU0
                                        (ex_two None (Some (ex_cb 0)) 1000)))))))) 2) \<and>
   forceEvicted (sessions (fst (snd (snd (iterBegin (ex_env False) (fst (snd (doPaging (ex_env False) GPU0 CPU0
                                        (ex_two None (Some (ex_cb 0)) 1000)))))))) 2)"
proof -
  let ?d = "doPaging (ex_env False) GPU0 CPU0 (ex_two None (Some (ex_cb 0)) 1000)"
  let ?s = "fst (snd ?d)"
  have a: "iterBegin (ex_env False) ?s =
      (fst (iterBegin (ex_env False) ?s), fst (snd (iterBegin (ex_env False) ?s)),
       fst (snd (snd (iterBegin (ex_env False) ?s))), snd (snd (snd (iterBegin (ex_env False) ?s))))"
    by simp
  show ?thesis
    using protectOOM_reset_every_iteration[OF a, where Ep = "ex_env False" and spec = GPU0
            and target = CPU0 and sB = "ex_two None (Some (ex_cb 0)) 1000" and b = "fst ?d"
            and esB = "snd (snd ?d)" and p = 2]
    by (simp add: ex_defs ex_iter_defs ex_task_defs)
qed

lemma iterSchedule_events:
  "iterSchedule P E prev s = (totalRemainingCount, rc, sc, cands, sS, es) \<Longrightarrow> e \<in> set es \<Longrightarrow>
     isCancelEv e"
proof -
  assume a: "iterSchedule P E prev s = (totalRemainingCount, rc, sc, cands, sS, es)"
    and e: "e \<in> set es"
  have "snd (snd (snd (snd (snd (iterSchedule P E prev s))))) =
          snd (snd (prepareSessions E (1 < length (m_sessions (snd (ingestSessions s))))
                      (m_sessions (snd (ingestSessions s))) 0 (snd (ingestSessions s))))"
    by (simp add: iterSchedule_def iterBegin_unfold split_beta)
  with a e show ?thesis by (auto dest: prepareSessions_only_cancels)
qed

lemma checkPaging_no_wait:
  "e \<in> set (snd (snd (checkPaging P E rc sc s))) \<Longrightarrow> \<not> isWaitEv e"
  by (auto simp: checkPaging_def Let_def dest: doPaging_no_wait split: if_splits)

lemma checkPaging_log:
  "(\<exists>e \<in> set (snd (snd (checkPaging P E rc sc s))). isPagingLogEv e) \<longleftrightarrow>
     (rc > 0 \<and> sc = 0 \<and> m_noPagingRunningTasks s = 0 \<and> insufficientMemory P GPU0 s \<and>
      1 < length (m_sessions s))"
  using doPaging_logs[of E GPU0 CPU0 s]
  by (auto simp: checkPaging_def Let_def)

lemma checkPaging_true:
  "fst (checkPaging P E rc sc s) \<Longrightarrow>
     rc > 0 \<and> sc = 0 \<and> m_noPagingRunningTasks s = 0 \<and> insufficientMemory P GPU0 s \<and>
     1 < length (m_sessions s) \<and> fst (doPaging E GPU0 CPU0 s)"
  by (auto simp: checkPaging_def Let_def split: if_splits)

lemma maybeWaitForAWhile_events:
  "e \<in> set (snd (snd (maybeWaitForAWhile now sc s))) \<Longrightarrow> \<not> isPagingLogEv e"
  by (auto simp: maybeWaitForAWhile_def Let_def split: if_splits)

lemma scheduleIter_unfold:
  "iterSchedule P E prev s = (totalRemainingCount, rc, sc, cands, sS, es) \<Longrightarrow>
   scheduleIter P E now prev s =
     (if fst (checkPaging P E rc sc sS)
      then (Restart, cands, fst (snd (checkPaging P E rc sc sS)),
            es @ snd (snd (checkPaging P E rc sc sS)))
      else if totalRemainingCount = 0
      then (Proceeded, cands,
            (fst (snd (maybeWaitForAWhile now sc (fst (snd (checkPaging P E rc sc sS))))))
              \<lparr>m_note_has_work := False\<rparr>,
            es @ snd (snd (checkPaging P E rc sc sS)) @
            snd (snd (maybeWaitForAWhile now sc (fst (snd (checkPaging P E rc sc sS))))) @
            [EvWaitWork])
      else (Proceeded, cands,
            fst (snd (maybeWaitForAWhile now sc (fst (snd (checkPaging P E rc sc sS))))),
            es @ snd (snd (checkPaging P E rc sc sS)) @
            snd (snd (maybeWaitForAWhile now sc (fst (snd (checkPaging P E rc sc sS)))))))"
  by (simp add: scheduleIter_def split_beta)

text \<open>
  Claim C5. Let \<open>rc\<close>, \<open>sc\<close> and \<open>sS\<close> be \<open>remainingCount\<close>, \<open>scheduled\<close> and
  the engine at the end of scheduling. In the iteration \<open>doPaging\<close> runs (it logs) if
  and only if \<open>rc > 0\<close>, \<open>sc = 0\<close>, \<open>m_noPagingRunningTasks = 0\<close>, the policy reports
  insufficient memory on GPU 0 and more than one session is live, and then it is
  \<open>doPaging GPU0 CPU0\<close>. With exactly one live session the engine only logs. When
  paging has succeeded the iteration ends at once (\<open>Restart\<close>) with the state
  \<open>doPaging\<close> left, without the back-off sleep and without waiting for work;
  otherwise it runs to the end of the body.
\<close>

theorem paging_decision:
  assumes "iterSchedule P E prev s = (totalRemainingCount, rc, sc, cands, sS, es)"
  shows
    "((\<exists>e \<in> set (snd (snd (snd (scheduleIter P E now prev s)))). isPagingLogEv e) \<longleftrightarrow>
        (rc > 0 \<and> sc = 0 \<and> m_noPagingRunningTasks sS = 0 \<and> insufficientMemory P GPU0 sS \<and>
         1 < length (m_sessions sS))) \<and>
     (rc > 0 \<and> sc = 0 \<and> m_noPagingRunningTasks sS = 0 \<and> insufficientMemory P GPU0 sS \<and>
      1 < length (m_sessions sS) \<longrightarrow>
        checkPaging P E rc sc sS = doPaging E GPU0 CPU0 sS) \<and>
     (rc > 0 \<and> sc = 0 \<and> m_noPagingRunningTasks sS = 0 \<and> insufficientMemory P GPU0 sS \<and>
      length (m_sessions sS) = 1 \<longrightarrow>
        checkPaging P E rc sc sS =
          (False, sS, [EvSingleSessionOOM (sessHandle (sessions sS (hd (m_sessions sS))))])) \<and>
     (fst (checkPaging P E rc sc sS) \<longrightarrow>
        rc > 0 \<and> sc = 0 \<and> m_noPagingRunningTasks sS = 0 \<and> insufficientMemory P GPU0 sS \<and>
        1 < length (m_sessions sS) \<and> fst (doPaging E GPU0 CPU0 sS) \<and>
        scheduleIter P E now prev s =
          (Restart, cands, fst (snd (doPaging E GPU0 CPU0 sS)),
           es @ snd (snd (doPaging E GPU0 CPU0 sS))) \<and>
        (\<forall>e \<in> set (snd (snd (snd (scheduleIter P E now prev s)))). \<not> isWaitEv e)) \<and>
     (\<not> fst (checkPaging P E rc sc sS) \<longrightarrow>
        fst (scheduleIter P E now prev s) = Proceeded)"
proof (intro conjI impI)
  note unf = scheduleIter_unfold[OF assms, of now]
  have cancel: "\<And>e. e \<in> set es \<Longrightarrow> isCancelEv e"
    using iterSchedule_events[OF assms] .
  have es_nolog: "\<not> isPagingLogEv e" if "e \<in> set es" for e
    using cancel[OF that] by (cases e) auto
  have es_nowait: "\<not> isWaitEv e" if "e \<in> set es" for e
    using cancel[OF that] by (cases e) auto
  show "(\<exists>e \<in> set (snd (snd (snd (scheduleIter P E now prev s)))). isPagingLogEv e) \<longleftrightarrow>
        (rc > 0 \<and> sc = 0 \<and> m_noPagingRunningTasks sS = 0 \<and> insufficientMemory P GPU0 sS \<and>
         1 < length (m_sessions sS))"
    unfolding checkPaging_log[of P E rc sc sS, symmetric] unf
    using es_nolog
      maybeWaitForAWhile_events[of _ now sc "fst (snd (checkPaging P E rc sc sS))"]
    by (auto split: if_splits)
  {
    assume "rc > 0 \<and> sc = 0 \<and> m_noPagingRunningTasks sS = 0 \<and> insufficientMemory P GPU0 sS \<and>
      1 < length (m_sessions sS)"
    then show "checkPaging P E rc sc sS = doPaging E GPU0 CPU0 sS"
      by (simp add: checkPaging_def)
  }
  {
    assume "rc > 0 \<and> sc = 0 \<and> m_noPagingRunningTasks sS = 0 \<and> insufficientMemory P GPU0 sS \<and>
      length (m_sessions sS) = 1"
    then show "checkPaging P E rc sc sS =
          (False, sS, [EvSingleSessionOOM (sessHandle (sessions sS (hd (m_sessions sS))))])"
      by (simp add: checkPaging_def)
  }
  {
    assume did: "fst (checkPaging P E rc sc sS)"
    from checkPaging_true[OF did]
    have c: "rc > 0 \<and> sc = 0 \<and> m_noPagingRunningTasks sS = 0 \<and> insufficientMemory P GPU0 sS \<and>
     1 < length (m_sessions sS) \<and> fst (doPaging E GPU0 CPU0 sS)" .
    then show "0 < rc" "sc = 0" "m_noPagingRunningTasks sS = 0" "insufficientMemory P GPU0 sS"
      "1 < length (m_sessions sS)" "fst (doPaging E GPU0 CPU0 sS)" by auto
    from c have eq: "checkPaging P E rc sc sS = doPaging E GPU0 CPU0 sS"
      by (simp add: checkPaging_def)
    from did show "scheduleIter P E now prev s =
          (Restart, cands, fst (snd (doPaging E GPU0 CPU0 sS)),
           es @ snd (snd (doPaging E GPU0 CPU0 sS)))"
      unfolding unf by (simp add: eq)
    from did show "\<forall>e \<in> set (snd (snd (snd (scheduleIter P E now prev s)))). \<not> isWaitEv e"
      unfolding unf using es_nowait checkPaging_no_wait[of _ P E rc sc sS] by auto
  }
  {
    assume "\<not> fst (checkPaging P E rc sc sS)"
    then show "fst (scheduleIter P E now prev s) = Proceeded"
      unfolding unf by simp
  }
qed

text \<open>
  Two stalled sessions: B volunteers 64 bytes and the iteration restarts. One stalled
  session: the out-of-memory log only, and the iteration proceeds.
\<close>

theorem paging_decision_witness:
  "fst (snd (iterSchedule ex_policy (ex_env False) [] ex_stalled)) = 1 \<and>
   fst (snd (snd (iterSchedule ex_policy (ex_env False) [] ex_stalled))) = 0 \<and>
   length (m_sessions (fst (snd (snd (snd (snd (iterSchedule ex_policy (ex_env False) [] ex_stalled))))))) = 2 \<and>
   fst (scheduleIter ex_policy (ex_env False) 5 [] ex_stalled) = Restart \<and>
   snd (snd (snd (scheduleIter ex_policy (ex_env False) 5 [] ex_stalled))) =
     [EvVolunteer 2 2, EvPagingLog 64 []] \<and>
   length (m_sessions (fst (snd (snd (snd (snd (iterSchedule ex_policy (ex_env False) [] ex_stalled_single)))))))
     = 1 \<and>
   scheduleIter ex_policy (ex_env False) 5 [] ex_stalled_single =
     (Proceeded, [1],
      fst (snd (snd (snd (snd (iterSchedule ex_policy (ex_env False) [] ex_stalled_single))))),
      [EvSingleSessionOOM ''A''])"
proof -
  have a: "iterSchedule ex_policy (ex_env False) [] ex_stalled =
      (fst (iterSchedule ex_policy (ex_env False) [] ex_stalled),
       fst (snd (iterSchedule ex_policy (ex_env False) [] ex_stalled)),
       fst (snd (snd (iterSchedule ex_policy (ex_env False) [] ex_stalled))),
       fst (snd (snd (snd (iterSchedule ex_policy (ex_env False) [] ex_stalled)))),
       fst (snd (snd (snd (snd (iterSchedule ex_policy (ex_env False) [] ex_stalled))))),
       snd (snd (snd (snd (snd (iterSchedule ex_policy (ex_env False) [] ex_stalled))))))"
    by simp
  have b: "iterSchedule ex_policy (ex_env False) [] ex_stalled_single =
      (fst (iterSchedule ex_policy (ex_env False) [] ex_stalled_single),
       fst (snd (iterSchedule ex_policy (ex_env False) [] ex_stalled_single)),
       fst (snd (snd (iterSchedule ex_policy (ex_env False) [] ex_stalled_single))),
       fst (snd (snd (snd (iterSchedule ex_policy (ex_env False) [] ex_stalled_single)))),
       fst (snd (snd (snd (snd (iterSchedule ex_policy (ex_env False) [] ex_stalled_single))))),
       snd (snd (snd (snd (snd (iterSchedule ex_policy (ex_env False) [] ex_stalled_single))))))"
    by simp
  show ?thesis
    using paging_decision[OF a, of 5] paging_decision[OF b, of 5]
    by (simp add: ex_defs ex_iter_defs ex_task_defs)
qed

end
